theory Spec2Isabelle
  imports Complex_Main
begin

section \<open>Numbers, random numbers and vectors\<close>

text \<open>
  JavaScript numbers are modelled as real numbers: the arithmetic of the source is read
  as exact arithmetic, and the rounding of doubles (and of the 32-bit stores into a
  \<^verbatim>\<open>Float32Array\<close>) is left out.  \<^verbatim>\<open>Math.random()\<close> is a global
  generator: it is modelled as a stream \<open>rnd :: nat \<Rightarrow> real\<close> of which the state holds
  the position of the next draw.
\<close>

record vec3 =
  X :: real
  Y :: real
  Z :: real

section \<open>RainApp (src/projects/rain/RainApp.ts)\<close>

definition PARTICLE_COUNT :: nat where "PARTICLE_COUNT = 10000"
definition RAIN_RANGE_X :: real where "RAIN_RANGE_X = 40"
definition RAIN_RANGE_Y :: real where "RAIN_RANGE_Y = 30"
definition RAIN_RANGE_Z :: real where "RAIN_RANGE_Z = 10"
definition GRAVITY :: real where "GRAVITY = 5"
definition UMBRELLA_RADIUS :: real where "UMBRELLA_RADIUS = 3"
definition BOUNCE_FORCE :: real where "BOUNCE_FORCE = 1 / 2"

text \<open>
  The lightning bolt is a \<^verbatim>\<open>THREE.Line\<close> whose geometry holds a position buffer
  (\<^verbatim>\<open>new Float32Array(50 * 3)\<close>) and a draw range \<^verbatim>\<open>(0, drawCount)\<close>.
\<close>

record bolt =
  boltPositions :: "real list"
  drawCount :: nat

text \<open>
  The fields of \<^verbatim>\<open>RainApp\<close> that \<^verbatim>\<open>update\<close> reads or writes.  The nullable fields
  are options: \<open>geometry\<close> is the particle position buffer
  (\<^verbatim>\<open>geometry.attributes.position.array\<close>), \<open>particles\<close> says that the
  \<^verbatim>\<open>THREE.Points\<close> object is not null, \<open>lightningMaterial\<close> holds the opacity
  of the material.
\<close>

record rain_state =
  geometry :: "real list option"
  particles :: bool
  velocities :: "real list"
  mouseWorldPos :: vec3
  lightningTimer :: real
  lightningIntensity :: real
  lightningBolt :: "bolt option"
  lightningMaterial :: "real option"
  rngPos :: nat

text \<open>
  \<^verbatim>\<open>triggerLightning\<close>, lines 136-178.  The loop over the 20 segments: \<open>n\<close> is the
  number of iterations left, \<open>k\<close> the position in the random stream.
\<close>

fun lightning_loop ::
  "(nat \<Rightarrow> real) \<Rightarrow> real \<Rightarrow> real \<Rightarrow> nat \<Rightarrow> nat \<Rightarrow> real \<Rightarrow> real \<Rightarrow> real list \<Rightarrow> real list"
where
  "lightning_loop rnd startX stepY 0 k currentX currentY points = points"
| "lightning_loop rnd startX stepY (Suc n) k currentX currentY points =
     (let cy = currentY - stepY;
          xOffset = (rnd k - 0.5) * 2.0;
          cx1 = currentX + xOffset;
          cx2 = (if \<bar>cx1 - startX\<bar> > 5 then cx1 + (startX - cx1) * 0.5 else cx1)
      in lightning_loop rnd startX stepY n (Suc k) cx2 cy (points @ [cx2, cy, 0]))"

definition lightning_points :: "(nat \<Rightarrow> real) \<Rightarrow> nat \<Rightarrow> real list" where
  "lightning_points rnd k =
     (let rangeX = 20;
          startX = (rnd k - 0.5) * rangeX;
          startY = 15;
          endY = - 15;
          segments = 20;
          stepY = (startY - endY) / real segments
      in lightning_loop rnd startX stepY segments (Suc k) startX startY [startX, startY, 0])"

text \<open>
  The copy loop writes \<open>points[i]\<close> to \<open>positions[i]\<close> for every \<open>i\<close> below
  \<open>points.length\<close>; a write beyond the end of a typed array is dropped.  \<open>validPoints\<close>
  counts every \<open>i\<close>, and the draw range is \<open>validPoints / 3\<close> (the points always hold
  63 numbers, so the quotient is the integer 21).
\<close>

definition triggerLightning :: "(nat \<Rightarrow> real) \<Rightarrow> rain_state \<Rightarrow> rain_state" where
  "triggerLightning rnd s =
     (case lightningBolt s of
        None \<Rightarrow> s
      | Some b \<Rightarrow>
          (let points = lightning_points rnd (rngPos s);
               positions = take (length (boltPositions b)) points
                             @ drop (length points) (boltPositions b);
               validPoints = length points
           in s\<lparr>lightningBolt := Some (b\<lparr>boltPositions := positions,
                                           drawCount := validPoints div 3\<rparr>),
                rngPos := rngPos s + 21\<rparr>))"

text \<open>
  \<^verbatim>\<open>resetParticle(positions, index, initial)\<close>, lines 181-198, on the position
  buffer, the velocity buffer and the position in the random stream.
\<close>

definition resetParticle ::
  "(nat \<Rightarrow> real) \<Rightarrow> nat \<Rightarrow> bool \<Rightarrow> real list \<times> real list \<times> nat \<Rightarrow> real list \<times> real list \<times> nat"
where
  "resetParticle rnd index initial st =
     (let positions = fst st; vels = fst (snd st); k = snd (snd st);
          i3 = index * 3;
          pos1 = positions[i3 := (rnd k - 0.5) * RAIN_RANGE_X];
          pos2 = (if initial then pos1[i3 + 1 := (rnd (k + 1) - 0.5) * RAIN_RANGE_Y]
                  else pos1[i3 + 1 := RAIN_RANGE_Y / 2]);
          k2 = (if initial then k + 2 else k + 1);
          pos3 = pos2[i3 + 2 := (rnd k2 - 0.5) * RAIN_RANGE_Z];
          vel1 = vels[i3 := 0];
          vel2 = vel1[i3 + 1 := - (rnd (k2 + 1) * 5 + 5)];
          vel3 = vel2[i3 + 2 := 0]
      in (pos3, vel3, k2 + 2))"

text \<open>
  The obstacle test of \<^verbatim>\<open>update\<close>, lines 296-315: inside the sphere
  (\<open>distSq < radiusSq\<close>) the source takes \<open>dist = Math.sqrt(distSq)\<close> and divides the
  offset by it.  The result is the divisor and the normal; \<open>None\<close> when the particle is not
  inside.  The source has no test of \<open>dist\<close> before the division: at \<open>dist = 0\<close> the
  offset is \<open>(0, 0, 0)\<close>, JavaScript computes \<open>0 / 0 = NaN\<close> and \<open>NaN > 0\<close> is false; HOL
  computes \<open>0 / 0 = 0\<close> and \<open>0 > 0\<close> is false, so the branch taken is the same.
\<close>

definition collision_normal :: "vec3 \<Rightarrow> vec3 \<Rightarrow> (real \<times> vec3) option" where
  "collision_normal m p =
     (let dx = X p - X m;
          dy = Y p - Y m;
          dz = Z p - Z m;
          distSq = dx * dx + dy * dy + dz * dz;
          radiusSq = UMBRELLA_RADIUS * UMBRELLA_RADIUS
      in if distSq < radiusSq
         then (let dist = sqrt distSq
               in Some (dist, \<lparr>X = dx / dist, Y = dy / dist, Z = dz / dist\<rparr>))
         else None)"

text \<open>
  The collision step, lines 296-344, on the position and the velocity (after gravity) of
  one particle; \<open>m\<close> is \<open>mouseWorldPos\<close>.
\<close>

definition collide :: "vec3 \<Rightarrow> vec3 \<times> vec3 \<Rightarrow> vec3 \<times> vec3" where
  "collide m pv =
     (case collision_normal m (fst pv) of
        None \<Rightarrow> pv
      | Some dn \<Rightarrow>
          (let p = fst pv; v = snd pv; dist = fst dn; n = snd dn
           in if Y n > 0
              then (let dot = X v * X n + Y v * Y n + Z v * Z n
                    in if dot < 0
                       then (let pushOut = UMBRELLA_RADIUS - dist + 0.05
                             in (\<lparr>X = X p + X n * pushOut,
                                  Y = Y p + Y n * pushOut,
                                  Z = Z p + Z n * pushOut\<rparr>,
                                 \<lparr>X = X v - 2 * dot * X n + X n * BOUNCE_FORCE,
                                  Y = Y v - 2 * dot * Y n + Y n * BOUNCE_FORCE,
                                  Z = Z v - 2 * dot * Z n + Z n * BOUNCE_FORCE\<rparr>))
                       else pv)
              else pv))"

text \<open>Gravity (line 290), then the collision step.\<close>

definition gravity_collide :: "real \<Rightarrow> vec3 \<Rightarrow> vec3 \<times> vec3 \<Rightarrow> vec3 \<times> vec3" where
  "gravity_collide delta m pv =
     collide m (fst pv, (snd pv)\<lparr>Y := Y (snd pv) - GRAVITY * delta\<rparr>)"

text \<open>Drag and the position update, lines 347-354.\<close>

definition integrate :: "real \<Rightarrow> vec3 \<times> vec3 \<Rightarrow> vec3 \<times> vec3" where
  "integrate delta pv =
     (let p = fst pv; v = snd pv;
          vx = X v * 0.99;
          vz = Z v * 0.99
      in (\<lparr>X = X p + vx * delta, Y = Y p + Y v * delta, Z = Z p + vz * delta\<rparr>,
          \<lparr>X = vx, Y = Y v, Z = vz\<rparr>))"

definition read3 :: "real list \<Rightarrow> nat \<Rightarrow> vec3" where
  "read3 a i3 = \<lparr>X = a ! i3, Y = a ! (i3 + 1), Z = a ! (i3 + 2)\<rparr>"

definition store3 :: "real list \<Rightarrow> nat \<Rightarrow> vec3 \<Rightarrow> real list" where
  "store3 a i3 v = a[i3 := X v, i3 + 1 := Y v, i3 + 2 := Z v]"

text \<open>
  The body of the particle loop, lines 273-377, for the particle \<open>i\<close>: physics, the reset
  below the floor (the values are read back from the buffers), the store.
\<close>

definition particle_step ::
  "(nat \<Rightarrow> real) \<Rightarrow> real \<Rightarrow> vec3 \<Rightarrow> nat \<Rightarrow> real list \<times> real list \<times> nat \<Rightarrow> real list \<times> real list \<times> nat"
where
  "particle_step rnd delta m i st =
     (let positions = fst st; vels = fst (snd st); k = snd (snd st);
          i3 = i * 3;
          pv = integrate delta (gravity_collide delta m (read3 positions i3, read3 vels i3))
      in if Y (fst pv) < - RAIN_RANGE_Y / 2
         then (let st' = resetParticle rnd i False st;
                   positions' = fst st'; vels' = fst (snd st')
               in (store3 positions' i3 (read3 positions' i3),
                   store3 vels' i3 (read3 vels' i3),
                   snd (snd st')))
         else (store3 positions i3 (fst pv), store3 vels i3 (snd pv), k))"

definition particle_loop ::
  "(nat \<Rightarrow> real) \<Rightarrow> real \<Rightarrow> vec3 \<Rightarrow> nat \<Rightarrow> real list \<times> real list \<times> nat \<Rightarrow> real list \<times> real list \<times> nat"
where
  "particle_loop rnd delta m n st = fold (particle_step rnd delta m) [0..<n] st"

text \<open>The lightning part of \<^verbatim>\<open>update\<close>, lines 248-270.\<close>

definition update_lightning :: "(nat \<Rightarrow> real) \<Rightarrow> real \<Rightarrow> rain_state \<Rightarrow> rain_state" where
  "update_lightning rnd delta s =
     (let s1 = s\<lparr>lightningTimer := lightningTimer s - delta\<rparr>;
          s2 = (if lightningTimer s1 \<le> 0
                then triggerLightning rnd
                       (s1\<lparr>lightningIntensity := 1.0,
                           lightningTimer := rnd (rngPos s1) * 5 + 2,
                           rngPos := Suc (rngPos s1)\<rparr>)
                else s1)
      in if lightningIntensity s2 > 0
         then (let i1 = lightningIntensity s2 - delta * 3.0;
                   i2 = (if i1 < 0 then 0 else i1)
               in s2\<lparr>lightningIntensity := i2,
                     lightningMaterial := map_option (\<lambda>_. i2) (lightningMaterial s2)\<rparr>)
         else s2\<lparr>lightningBolt := map_option (\<lambda>b. b\<lparr>drawCount := 0\<rparr>) (lightningBolt s2)\<rparr>)"

text \<open>\<^verbatim>\<open>update(delta)\<close>, lines 243-380.\<close>

definition update :: "(nat \<Rightarrow> real) \<Rightarrow> real \<Rightarrow> rain_state \<Rightarrow> rain_state" where
  "update rnd delta s =
     (case geometry s of
        None \<Rightarrow> s
      | Some positions \<Rightarrow>
          if \<not> particles s then s
          else (let s1 = update_lightning rnd delta s;
                    st = particle_loop rnd delta (mouseWorldPos s1) PARTICLE_COUNT
                           (positions, velocities s1, rngPos s1)
                in s1\<lparr>geometry := Some (fst st),
                      velocities := fst (snd st),
                      rngPos := snd (snd st)\<rparr>))"

text \<open>Several frames in a row: \<^verbatim>\<open>update\<close> called with each frame time of a list.\<close>

definition updates :: "(nat \<Rightarrow> real) \<Rightarrow> real list \<Rightarrow> rain_state \<Rightarrow> rain_state" where
  "updates rnd deltas s = fold (update rnd) deltas s"

subsection \<open>Quantities used to state the properties of the particle step\<close>

text \<open>
  The squared distance of a particle from the obstacle centre, the outward normal, the dot
  product, and the three conditions of lines 308, 318 and 326 under which the source
  reflects a particle with position \<open>p\<close> and velocity \<open>v\<close>.
\<close>

definition distSq :: "vec3 \<Rightarrow> vec3 \<Rightarrow> real" where
  "distSq m p =
     (X p - X m) * (X p - X m) + (Y p - Y m) * (Y p - Y m) + (Z p - Z m) * (Z p - Z m)"

definition outward_normal :: "vec3 \<Rightarrow> vec3 \<Rightarrow> vec3" where
  "outward_normal m p =
     \<lparr>X = (X p - X m) / sqrt (distSq m p),
      Y = (Y p - Y m) / sqrt (distSq m p),
      Z = (Z p - Z m) / sqrt (distSq m p)\<rparr>"

definition dot3 :: "vec3 \<Rightarrow> vec3 \<Rightarrow> real" where
  "dot3 a b = X a * X b + Y a * Y b + Z a * Z b"

definition reflection_fires :: "vec3 \<Rightarrow> vec3 \<Rightarrow> vec3 \<Rightarrow> bool" where
  "reflection_fires m p v \<longleftrightarrow>
     distSq m p < UMBRELLA_RADIUS * UMBRELLA_RADIUS
     \<and> 0 < Y p - Y m
     \<and> dot3 v (outward_normal m p) < 0"

text \<open>
  Position and velocity of particle \<open>i\<close> after gravity, collision, drag and the position
  update (the values of \<open>x, y, z, vx, vy, vz\<close> at line 355, before the floor test).
\<close>

definition particle_moved :: "real \<Rightarrow> vec3 \<Rightarrow> real list \<Rightarrow> real list \<Rightarrow> nat \<Rightarrow> vec3 \<times> vec3" where
  "particle_moved delta m positions vels i =
     integrate delta (gravity_collide delta m (read3 positions (i * 3), read3 vels (i * 3)))"

text \<open>
  What the slot of a particle holds after its step, given the moved values \<open>pv\<close>: the
  reset values when the moved particle is below the floor, the moved values otherwise.
\<close>

definition slot_done :: "(nat \<Rightarrow> real) \<Rightarrow> vec3 \<times> vec3 \<Rightarrow> vec3 \<times> vec3 \<Rightarrow> bool" where
  "slot_done rnd pv out \<longleftrightarrow>
     (if Y (fst pv) < - RAIN_RANGE_Y / 2
      then Y (fst out) = RAIN_RANGE_Y / 2 \<and> X (snd out) = 0 \<and> Z (snd out) = 0
           \<and> (\<exists>k. Y (snd out) = - (rnd k * 5 + 5))
      else out = pv)"

text \<open>
  A constructed \<^verbatim>\<open>RainApp\<close> with every particle at the origin, used for concrete runs:
  the buffers have their \<open>PARTICLE_COUNT * 3\<close> entries, the pointer is at its initial
  far-away place, the bolt buffer has its 150 entries and is hidden.
\<close>

definition rain_example :: rain_state where
  "rain_example =
     \<lparr>geometry = Some (replicate 30000 0), particles = True, velocities = replicate 30000 0,
      mouseWorldPos = \<lparr>X = 9999, Y = 9999, Z = 0\<rparr>,
      lightningTimer = 0, lightningIntensity = 0,
      lightningBolt = Some \<lparr>boltPositions = replicate 150 0, drawCount = 0\<rparr>,
      lightningMaterial = Some 0, rngPos = 0\<rparr>"

section \<open>AvatarNetworkApp (src/unnamed/part_007, lines 253-595)\<close>

subsection \<open>The operations of the three.js library that the source calls\<close>

text \<open>
  \<^verbatim>\<open>THREE.Vector3\<close> is not code of this repository.  Its methods are modelled as the
  library documents them: \<open>add\<close>, \<open>multiplyScalar\<close>, \<open>length\<close>, \<open>normalize\<close> (which
  divides by \<open>length() || 1\<close>, so the zero vector stays as it is) and \<open>applyAxisAngle\<close>
  for the axis \<open>(0, 0, 1)\<close>, a rotation in the plane.  \<open>clone\<close> is the identity on values.
\<close>

definition vadd :: "vec3 \<Rightarrow> vec3 \<Rightarrow> vec3" where
  "vadd a b = \<lparr>X = X a + X b, Y = Y a + Y b, Z = Z a + Z b\<rparr>"

definition multiplyScalar :: "vec3 \<Rightarrow> real \<Rightarrow> vec3" where
  "multiplyScalar a c = \<lparr>X = X a * c, Y = Y a * c, Z = Z a * c\<rparr>"

definition vlength :: "vec3 \<Rightarrow> real" where
  "vlength a = sqrt (X a * X a + Y a * Y a + Z a * Z a)"

definition normalize :: "vec3 \<Rightarrow> vec3" where
  "normalize a = multiplyScalar a (1 / (if vlength a = 0 then 1 else vlength a))"

definition applyAxisAngleZ :: "vec3 \<Rightarrow> real \<Rightarrow> vec3" where
  "applyAxisAngleZ a angle =
     \<lparr>X = X a * cos angle - Y a * sin angle, Y = X a * sin angle + Y a * cos angle, Z = Z a\<rparr>"

text \<open>The remainder \<open>a % n\<close> of JavaScript on numbers: the quotient is truncated.\<close>

definition js_rem :: "real \<Rightarrow> real \<Rightarrow> real" where
  "js_rem a n = a - n * of_int (if 0 \<le> a / n then \<lfloor>a / n\<rfloor> else \<lceil>a / n\<rceil>)"

text \<open>A colour as the arguments of \<^verbatim>\<open>setHSL\<close>.\<close>

record hsl =
  hue :: real
  saturation :: real
  lightness :: real

subsection \<open>The data\<close>

definition MAX_BRANCHES :: nat where "MAX_BRANCHES = 3000"
definition BRANCH_LENGTH :: real where "BRANCH_LENGTH = 6.0"
definition GROWTH_SPEED :: real where "GROWTH_SPEED = 12.0"
definition BRANCH_ANGLE :: real where "BRANCH_ANGLE = pi / 2"
definition BRANCH_PROBABILITY :: real where "BRANCH_PROBABILITY = 0.95"
definition TUBE_RADIUS :: real where "TUBE_RADIUS = 0.12"

text \<open>The generation limit is the literal 25 of line 429.\<close>

definition MAX_GENERATION :: nat where "MAX_GENERATION = 25"

text \<open>
  The interface \<^verbatim>\<open>Branch\<close>, lines 255-265.  The fields \<^verbatim>\<open>end\<close> and
  \<^verbatim>\<open>length\<close> are named \<open>end_pos\<close> and \<open>branch_length\<close>.  The generation is a count
  (0 for a seed, the parent's plus one for a child).
\<close>

record branch =
  start :: vec3
  end_pos :: vec3
  direction :: vec3
  age :: real
  generation :: nat
  isGrowing :: bool
  branch_length :: real
  targetLength :: real
  color :: hsl

text \<open>
  A tube mesh of the group \<^verbatim>\<open>branchLines\<close>: the points of the curve its geometry
  follows, the number of tubular segments, the radius, and the opacity and colour of its
  material.
\<close>

record mesh =
  path :: "vec3 list"
  tubularSegments :: int
  radius :: real
  opacity :: real
  mesh_color :: hsl

text \<open>
  The fields of \<^verbatim>\<open>AvatarNetworkApp\<close> that the simulation uses; \<open>branchLines\<close> is the
  list of children of the group.  \<open>randPos\<close> is the position in the random stream.
  \<open>spawnLog\<close> is not a field of the source: it records, newest first, the index of the
  branch for which \<^verbatim>\<open>updateBranches\<close> calls \<^verbatim>\<open>branchOut\<close>, so that the calls can be
  counted.
\<close>

record network_state =
  branches :: "branch list"
  branchLines :: "mesh list"
  elapsedTime :: real
  randPos :: nat
  spawnLog :: "nat list"

subsection \<open>createBranch, lines 375-423\<close>

definition new_branch :: "vec3 \<Rightarrow> vec3 \<Rightarrow> nat \<Rightarrow> branch" where
  "new_branch st dir gen =
     (let hue = 0.5 + js_rem (real gen * 0.05) 0.3;
          color = \<lparr>hue = hue, saturation = 1.0, lightness = 0.5\<rparr>;
          targetLength = BRANCH_LENGTH * (1 - real gen * 0.05)
      in \<lparr>start = st, end_pos = st, direction = normalize dir, age = 0, generation = gen,
          isGrowing = True, branch_length = 0, targetLength = max targetLength 0.5,
          color = color\<rparr>)"

text \<open>
  \<^verbatim>\<open>direction.normalize()\<close> at line 391 normalises the argument in place, so the
  \<open>direction\<close> of line 403 is the normalised one.
\<close>

definition new_mesh :: "vec3 \<Rightarrow> vec3 \<Rightarrow> nat \<Rightarrow> mesh" where
  "new_mesh st dir gen =
     \<lparr>path = [st, vadd st (multiplyScalar (normalize dir) 0.01)],
      tubularSegments = 2, radius = TUBE_RADIUS, opacity = 0.9,
      mesh_color = color (new_branch st dir gen)\<rparr>"

definition createBranch :: "vec3 \<Rightarrow> vec3 \<Rightarrow> nat \<Rightarrow> network_state \<Rightarrow> network_state" where
  "createBranch st dir gen s =
     (if length (branches s) \<ge> MAX_BRANCHES then s
      else s\<lparr>branches := branches s @ [new_branch st dir gen],
             branchLines := branchLines s @ [new_mesh st dir gen]\<rparr>)"

subsection \<open>branchOut, lines 428-455\<close>

text \<open>The loop over the new branches: \<open>n\<close> is the number of iterations left.\<close>

fun spawn_loop :: "(nat \<Rightarrow> real) \<Rightarrow> branch \<Rightarrow> nat \<Rightarrow> network_state \<Rightarrow> network_state" where
  "spawn_loop rnd b 0 s = s"
| "spawn_loop rnd b (Suc n) s =
     (let angleRange = BRANCH_ANGLE;
          angle = (rnd (randPos s) - 0.5) * angleRange * 2;
          rotated = applyAxisAngleZ (direction b) angle;
          newDirection = normalize (rotated\<lparr>Z := 0\<rparr>)
      in spawn_loop rnd b n
           (createBranch (end_pos b) newDirection (generation b + 1)
              (s\<lparr>randPos := Suc (randPos s)\<rparr>)))"

definition branchOut :: "(nat \<Rightarrow> real) \<Rightarrow> branch \<Rightarrow> network_state \<Rightarrow> network_state" where
  "branchOut rnd b s =
     (if generation b \<ge> MAX_GENERATION then s
      else if rnd (randPos s) > BRANCH_PROBABILITY then s\<lparr>randPos := Suc (randPos s)\<rparr>
      else (let numNewBranches = 2 + \<lfloor>rnd (Suc (randPos s)) * 4\<rfloor>
            in spawn_loop rnd b (nat numNewBranches) (s\<lparr>randPos := randPos s + 2\<rparr>)))"

subsection \<open>updateBranches, lines 460-509, and update, lines 535-544\<close>

text \<open>The new tube geometry of a growing branch, lines 483-495.\<close>

definition regrow_mesh :: "branch \<Rightarrow> mesh \<Rightarrow> mesh" where
  "regrow_mesh b m =
     m\<lparr>path := [start b, end_pos b],
       tubularSegments := max 2 \<lfloor>branch_length b * 4\<rfloor>,
       radius := TUBE_RADIUS * (1 - real (generation b) * 0.06)\<rparr>"

text \<open>
  The callback of \<^verbatim>\<open>forEach\<close> for the branch at \<open>index\<close>: \<open>grow_branch\<close> is the
  block under \<^verbatim>\<open>if (branch.isGrowing)\<close>, lines 462-497, and \<open>update_branch\<close> the
  whole callback.  The branch object is changed in place; \<^verbatim>\<open>branchOut\<close> receives it with the new \<open>length\<close> and
  \<open>isGrowing\<close> and with the \<open>end\<close> of the frame before, since \<open>end\<close> is set after the
  call.  \<^verbatim>\<open>children[index]\<close> is undefined beyond the end of the group, and the
  two \<^verbatim>\<open>if (mesh && ...)\<close> then skip the mesh.
\<close>

definition grow_branch :: "(nat \<Rightarrow> real) \<Rightarrow> real \<Rightarrow> nat \<Rightarrow> network_state \<Rightarrow> network_state" where
  "grow_branch rnd delta index s =
     (let b = branches s ! index;
          b1 = b\<lparr>branch_length := branch_length b + GROWTH_SPEED * delta\<rparr>;
          complete = (branch_length b1 \<ge> targetLength b1);
          b2 = (if complete
                then b1\<lparr>branch_length := targetLength b1, isGrowing := False\<rparr>
                else b1);
          sa = s\<lparr>branches := (branches s)[index := b2]\<rparr>;
          sb = (if complete
                then branchOut rnd b2 (sa\<lparr>spawnLog := index # spawnLog sa\<rparr>)
                else sa);
          b3 = b2\<lparr>end_pos := vadd (start b2)
                                (multiplyScalar (direction b2) (branch_length b2))\<rparr>;
          sc = sb\<lparr>branches := (branches sb)[index := b3]\<rparr>
      in if index < length (branchLines sc)
         then sc\<lparr>branchLines :=
                   (branchLines sc)[index := regrow_mesh b3 (branchLines sc ! index)]\<rparr>
         else sc)"

definition update_branch :: "(nat \<Rightarrow> real) \<Rightarrow> real \<Rightarrow> nat \<Rightarrow> network_state \<Rightarrow> network_state" where
  "update_branch rnd delta index s =
     (let s1 = (if isGrowing (branches s ! index) then grow_branch rnd delta index s else s);
          b4 = (branches s1 ! index)\<lparr>age := age (branches s1 ! index) + delta\<rparr>;
          s2 = s1\<lparr>branches := (branches s1)[index := b4]\<rparr>
      in if index < length (branchLines s2)
         then s2\<lparr>branchLines :=
                   (branchLines s2)[index := (branchLines s2 ! index)
                      \<lparr>opacity := 0.7 + sin (elapsedTime s2 * 3 + age b4) * 0.3\<rparr>]\<rparr>
         else s2)"

text \<open>
  \<^verbatim>\<open>forEach\<close> visits the indices below the length the array has when the call starts;
  the branches that \<^verbatim>\<open>branchOut\<close> appends during the call are not visited.
\<close>

definition updateBranches :: "(nat \<Rightarrow> real) \<Rightarrow> real \<Rightarrow> network_state \<Rightarrow> network_state" where
  "updateBranches rnd delta s = fold (update_branch rnd delta) [0..<length (branches s)] s"

definition update_network :: "(nat \<Rightarrow> real) \<Rightarrow> real \<Rightarrow> network_state \<Rightarrow> network_state" where
  "update_network rnd delta s = updateBranches rnd delta (s\<lparr>elapsedTime := elapsedTime s + delta\<rparr>)"

subsection \<open>The constructor and setupScene, lines 289-370\<close>

definition new_network :: "nat \<Rightarrow> network_state" where
  "new_network k = \<lparr>branches = [], branchLines = [], elapsedTime = 0, randPos = k, spawnLog = []\<rparr>"

definition startPoints :: "vec3 list" where
  "startPoints =
     [\<lparr>X = 0, Y = 0, Z = 0\<rparr>, \<lparr>X = - 15, Y = 10, Z = 0\<rparr>, \<lparr>X = 15, Y = 10, Z = 0\<rparr>,
      \<lparr>X = - 15, Y = - 10, Z = 0\<rparr>, \<lparr>X = 15, Y = - 10, Z = 0\<rparr>, \<lparr>X = 0, Y = 15, Z = 0\<rparr>,
      \<lparr>X = 0, Y = - 15, Z = 0\<rparr>, \<lparr>X = - 20, Y = 0, Z = 0\<rparr>, \<lparr>X = 20, Y = 0, Z = 0\<rparr>]"

definition seed_branch ::
  "(nat \<Rightarrow> real) \<Rightarrow> vec3 \<Rightarrow> int \<Rightarrow> nat \<Rightarrow> network_state \<Rightarrow> network_state" where
  "seed_branch rnd startPoint numBranchesPerPoint i s =
     (let angle = (real i / real_of_int numBranchesPerPoint) * pi * 2 + rnd (randPos s) * 0.5;
          direction = normalize \<lparr>X = cos angle, Y = sin angle, Z = 0\<rparr>
      in createBranch startPoint direction 0 (s\<lparr>randPos := Suc (randPos s)\<rparr>))"

definition seed_point :: "(nat \<Rightarrow> real) \<Rightarrow> vec3 \<Rightarrow> network_state \<Rightarrow> network_state" where
  "seed_point rnd startPoint s =
     (let numBranchesPerPoint = 4 + \<lfloor>rnd (randPos s) * 4\<rfloor>
      in fold (seed_branch rnd startPoint numBranchesPerPoint) [0..<nat numBranchesPerPoint]
           (s\<lparr>randPos := Suc (randPos s)\<rparr>))"

definition setupScene :: "(nat \<Rightarrow> real) \<Rightarrow> network_state \<Rightarrow> network_state" where
  "setupScene rnd s = fold (seed_point rnd) startPoints s"

subsection \<open>Quantities used to state the properties of the network\<close>

text \<open>
  A growing branch completes in a frame when the grown length reaches the target; the
  completed branch is the object that \<^verbatim>\<open>branchOut\<close> receives.  \<open>step_branch\<close> and
  \<open>step_mesh\<close> are the branch and its mesh after one run of the callback; \<open>spawn_state\<close>
  is the state after the call of \<^verbatim>\<open>branchOut\<close>, if there is one.  \<open>appends g s s'\<close>
  says that \<open>s'\<close> is \<open>s\<close> with branches of generation \<open>g\<close> and their meshes, as
  \<^verbatim>\<open>createBranch\<close> makes them, added at the end.
\<close>

definition completes :: "real \<Rightarrow> branch \<Rightarrow> bool" where
  "completes delta b \<longleftrightarrow> isGrowing b \<and> targetLength b \<le> branch_length b + GROWTH_SPEED * delta"

definition finished :: "branch \<Rightarrow> branch" where
  "finished b = b\<lparr>branch_length := targetLength b, isGrowing := False\<rparr>"

definition step_branch :: "real \<Rightarrow> branch \<Rightarrow> branch" where
  "step_branch delta b =
     (if isGrowing b
      then (let b2 = (if completes delta b then finished b
                      else b\<lparr>branch_length := branch_length b + GROWTH_SPEED * delta\<rparr>)
            in b2\<lparr>end_pos := vadd (start b2) (multiplyScalar (direction b2) (branch_length b2)),
                  age := age b2 + delta\<rparr>)
      else b\<lparr>age := age b + delta\<rparr>)"

definition step_mesh :: "real \<Rightarrow> real \<Rightarrow> branch \<Rightarrow> mesh \<Rightarrow> mesh" where
  "step_mesh t delta b m =
     (if isGrowing b then regrow_mesh (step_branch delta b) m else m)
       \<lparr>opacity := 0.7 + sin (t * 3 + (age b + delta)) * 0.3\<rparr>"

definition spawned :: "nat \<Rightarrow> branch \<times> mesh \<Rightarrow> bool" where
  "spawned g y \<longleftrightarrow> (\<exists>st d. fst y = new_branch st d g \<and> snd y = new_mesh st d g)"

definition appends :: "nat \<Rightarrow> network_state \<Rightarrow> network_state \<Rightarrow> bool" where
  "appends g s s' \<longleftrightarrow>
     (\<exists>ys. branches s' = branches s @ map fst ys
          \<and> branchLines s' = branchLines s @ map snd ys
          \<and> list_all (spawned g) ys)
     \<and> length (branches s') \<le> max MAX_BRANCHES (length (branches s))
     \<and> elapsedTime s' = elapsedTime s
     \<and> spawnLog s' = spawnLog s"

definition spawn_state :: "(nat \<Rightarrow> real) \<Rightarrow> real \<Rightarrow> nat \<Rightarrow> network_state \<Rightarrow> network_state" where
  "spawn_state rnd delta k s =
     (if completes delta (branches s ! k)
      then branchOut rnd (finished (branches s ! k))
             (s\<lparr>branches := (branches s)[k := finished (branches s ! k)],
                spawnLog := k # spawnLog s\<rparr>)
      else s)"

subsection \<open>Invariants of the network and states for concrete runs\<close>

text \<open>
  \<open>growth_inv\<close>: lengths within the targets, stopped branches at their targets, and one
  logged call of \<^verbatim>\<open>branchOut\<close> for each stopped branch, none for a growing one.
  \<open>generation_bounded\<close>: no generation above the limit.  \<open>aligned\<close>: as many meshes as
  branches, the mesh at an index made for the branch at that index.  The examples are the
  state with one seed branch from the origin along the x-axis, that branch stopped at its
  target length, and a state with 3000 branches.
\<close>

definition growth_inv :: "network_state \<Rightarrow> bool" where
  "growth_inv s \<longleftrightarrow>
     (\<forall>i<length (branches s).
        branch_length (branches s ! i) \<le> targetLength (branches s ! i)
        \<and> (\<not> isGrowing (branches s ! i) \<longrightarrow>
              branch_length (branches s ! i) = targetLength (branches s ! i))
        \<and> count_list (spawnLog s) i = (if isGrowing (branches s ! i) then 0 else 1))
     \<and> (\<forall>j\<in>set (spawnLog s). j < length (branches s))"

definition generation_bounded :: "network_state \<Rightarrow> bool" where
  "generation_bounded s \<longleftrightarrow> (\<forall>b\<in>set (branches s). generation b \<le> MAX_GENERATION)"

definition aligned :: "network_state \<Rightarrow> bool" where
  "aligned s \<longleftrightarrow>
     length (branchLines s) = length (branches s)
     \<and> (\<forall>i<length (branches s).
           mesh_color (branchLines s ! i) = color (branches s ! i)
           \<and> hd (path (branchLines s ! i)) = start (branches s ! i))"

definition network_example :: network_state where
  "network_example =
     createBranch \<lparr>X = 0, Y = 0, Z = 0\<rparr> \<lparr>X = 1, Y = 0, Z = 0\<rparr> 0 (new_network 0)"

definition frozen_example :: network_state where
  "frozen_example =
     \<lparr>branches = [finished (new_branch \<lparr>X = 0, Y = 0, Z = 0\<rparr> \<lparr>X = 1, Y = 0, Z = 0\<rparr> 0)],
      branchLines = [new_mesh \<lparr>X = 0, Y = 0, Z = 0\<rparr> \<lparr>X = 1, Y = 0, Z = 0\<rparr> 0],
      elapsedTime = 0, randPos = 0, spawnLog = [0]\<rparr>"

definition full_example :: network_state where
  "full_example =
     \<lparr>branches = replicate 3000 (new_branch \<lparr>X = 0, Y = 0, Z = 0\<rparr> \<lparr>X = 1, Y = 0, Z = 0\<rparr> 0),
      branchLines = replicate 3000 (new_mesh \<lparr>X = 0, Y = 0, Z = 0\<rparr> \<lparr>X = 1, Y = 0, Z = 0\<rparr> 0),
      elapsedTime = 0, randPos = 0, spawnLog = []\<rparr>"

section \<open>Properties of RainApp\<close>

lemmas rain_consts = RAIN_RANGE_X_def RAIN_RANGE_Y_def RAIN_RANGE_Z_def GRAVITY_def
  UMBRELLA_RADIUS_def BOUNCE_FORCE_def

subsection \<open>The collision step\<close>

lemma distSq_nonneg: "0 \<le> distSq m p"
  by (simp add: distSq_def)

lemma collision_normal_eq:
  "collision_normal m p =
     (if distSq m p < UMBRELLA_RADIUS * UMBRELLA_RADIUS
      then Some (sqrt (distSq m p), outward_normal m p) else None)"
  by (simp add: collision_normal_def distSq_def outward_normal_def Let_def)

lemma normal_Y_pos: "0 < Y (outward_normal m p) \<longleftrightarrow> 0 < Y p - Y m"
proof (cases "distSq m p = 0")
  case True
  have "(Y p - Y m) * (Y p - Y m) \<le> distSq m p"
    by (simp add: distSq_def)
  with True have "(Y p - Y m) * (Y p - Y m) \<le> 0" by simp
  then have "Y p - Y m = 0"
    by (metis mult_eq_0_iff antisym_conv zero_le_square)
  with True show ?thesis by (simp add: outward_normal_def)
next
  case False
  with distSq_nonneg[of m p] have "0 < sqrt (distSq m p)" by simp
  then show ?thesis by (simp add: outward_normal_def zero_less_divide_iff)
qed

lemma collide_eq:
  "collide m (p, v) =
     (if reflection_fires m p v
      then (let n = outward_normal m p;
                pushOut = UMBRELLA_RADIUS - sqrt (distSq m p) + 0.05;
                d = dot3 v n
            in (\<lparr>X = X p + X n * pushOut, Y = Y p + Y n * pushOut, Z = Z p + Z n * pushOut\<rparr>,
                \<lparr>X = X v - 2 * d * X n + X n * BOUNCE_FORCE,
                 Y = Y v - 2 * d * Y n + Y n * BOUNCE_FORCE,
                 Z = Z v - 2 * d * Z n + Z n * BOUNCE_FORCE\<rparr>))
      else (p, v))"
  using normal_Y_pos[of m p]
  by (simp add: collide_def collision_normal_eq reflection_fires_def dot3_def Let_def)

lemma push_integrate_bound:
  fixes nx ny nz vx vy vz dt :: real
  assumes unit: "nx * nx + ny * ny + nz * nz = 1"
    and dneg: "vx * nx + vy * ny + vz * nz < 0"
    and dt: "0 \<le> dt"
  defines "dot \<equiv> vx * nx + vy * ny + vz * nz"
  defines "wx \<equiv> vx - 2 * dot * nx + nx * (1 / 2)"
    and "wy \<equiv> vy - 2 * dot * ny + ny * (1 / 2)"
    and "wz \<equiv> vz - 2 * dot * nz + nz * (1 / 2)"
  shows "9 \<le> (nx * (61 / 20) + wx * (99 / 100) * dt) * (nx * (61 / 20) + wx * (99 / 100) * dt)
           + (ny * (61 / 20) + wy * dt) * (ny * (61 / 20) + wy * dt)
           + (nz * (61 / 20) + wz * (99 / 100) * dt) * (nz * (61 / 20) + wz * (99 / 100) * dt)"
    (is "9 \<le> ?L")
proof -
  define q where "q = nx * (wx * (99 / 100)) + ny * wy + nz * (wz * (99 / 100))"
  define W where "W = (wx * (99 / 100)) * (wx * (99 / 100)) + wy * wy
                        + (wz * (99 / 100)) * (wz * (99 / 100))"
  define u where "u = nx * wx + nz * wz"
  define S where "S = wx * wx + wz * wz"
  have expand: "?L = (61 / 20) * (61 / 20) * (nx * nx + ny * ny + nz * nz)
                      + 2 * (61 / 20) * (dt * q) + dt * dt * W"
    by (simp add: q_def W_def algebra_simps)
  have L: "?L = 3721 / 400 + (61 / 10) * (dt * q) + dt * dt * W"
    unfolding expand unit by simp
  have nw: "nx * wx + ny * wy + nz * wz = dot - 2 * dot * (nx * nx + ny * ny + nz * nz)
              + (nx * nx + ny * ny + nz * nz) * (1 / 2)"
    by (simp add: wx_def wy_def wz_def dot_def algebra_simps)
  have nw': "nx * wx + ny * wy + nz * wz = 1 / 2 - dot"
    unfolding nw unit by simp
  have q_eq: "q = (1 / 2 - dot) - u / 100"
    unfolding nw'[symmetric] q_def u_def by (simp add: field_simps)
  have W0: "0 \<le> W" by (simp add: W_def)
  show ?thesis
  proof (cases "0 \<le> q")
    case True
    have "0 \<le> dt * q" using dt True by simp
    moreover have "0 \<le> dt * dt * W" using W0 by simp
    ultimately show ?thesis unfolding L by linarith
  next
    case False
    then have qneg: "q < 0" by simp
    have dpos: "0 < 1 / 2 - dot" using dneg by (simp add: dot_def)
    have u1: "- q \<le> u / 100" using q_eq dpos by linarith
    have "- q * - q \<le> (u / 100) * (u / 100)"
      using u1 qneg by (intro mult_mono) simp_all
    then have q2: "10000 * (q * q) \<le> u * u" by simp
    have cs: "(nx * nx + nz * nz) * S - u * u = (nx * wz - nz * wx) * (nx * wz - nz * wx)"
      by (simp add: S_def u_def algebra_simps)
    have "0 \<le> (nx * wz - nz * wx) * (nx * wz - nz * wx)" by simp
    with cs have cs': "u * u \<le> (nx * nx + nz * nz) * S" by linarith
    have S0: "0 \<le> S" by (simp add: S_def)
    have "nx * nx + nz * nz \<le> 1" using unit zero_le_square[of ny] by linarith
    then have "(nx * nx + nz * nz) * S \<le> 1 * S" using S0 by (intro mult_right_mono)
    with cs' have uS: "u * u \<le> S" by simp
    have WS: "(9801 / 10000) * S \<le> W"
    proof -
      have "W = (9801 / 10000) * S + wy * wy" by (simp add: W_def S_def algebra_simps)
      then show ?thesis using zero_le_square[of wy] by linarith
    qed
    have Wq: "9801 * (q * q) \<le> W" using q2 uS WS by linarith
    have "dt * dt * (9801 * (q * q)) \<le> dt * dt * W"
      using Wq by (intro mult_left_mono) simp_all
    then have W2: "9801 * ((dt * q) * (dt * q)) \<le> dt * dt * W"
      by (simp add: algebra_simps)
    have "0 \<le> (99 * (dt * q) + 61 / 1980) * (99 * (dt * q) + 61 / 1980)" by simp
    then have "0 \<le> 9801 * ((dt * q) * (dt * q)) + (61 / 10) * (dt * q) + (61 / 1980) * (61 / 1980)"
      by (simp add: algebra_simps)
    then show ?thesis unfolding L using W2 by simp
  qed
qed

lemma fires_dist_pos:
  assumes "reflection_fires m p v"
  shows "0 < sqrt (distSq m p)"
proof -
  from assms have "0 < (Y p - Y m) * (Y p - Y m)"
    by (simp add: reflection_fires_def)
  moreover have "(Y p - Y m) * (Y p - Y m) \<le> distSq m p"
    by (simp add: distSq_def)
  ultimately show ?thesis by simp
qed

lemma normal_unit:
  assumes "0 < sqrt (distSq m p)"
  shows "X (outward_normal m p) * X (outward_normal m p)
           + Y (outward_normal m p) * Y (outward_normal m p)
           + Z (outward_normal m p) * Z (outward_normal m p) = 1"
proof -
  let ?s = "sqrt (distSq m p)"
  have ss: "?s * ?s = distSq m p" using distSq_nonneg[of m p] by simp
  have gen: "(a / s) * (a / s) + (b / s) * (b / s) + (c / s) * (c / s)
               = (a * a + b * b + c * c) / (s * s)" for a b c s :: real
    by (simp add: add_divide_distrib)
  have "X (outward_normal m p) * X (outward_normal m p)
           + Y (outward_normal m p) * Y (outward_normal m p)
           + Z (outward_normal m p) * Z (outward_normal m p)
        = ((X p - X m) * (X p - X m) + (Y p - Y m) * (Y p - Y m) + (Z p - Z m) * (Z p - Z m))
            / (?s * ?s)"
    unfolding outward_normal_def vec3.simps by (rule gen)
  also have "\<dots> = distSq m p / distSq m p"
    unfolding ss by (simp only: distSq_def)
  also have "\<dots> = 1" using assms by simp
  finally show ?thesis .
qed

lemma normal_times_dist:
  assumes "0 < sqrt (distSq m p)"
  shows "X (outward_normal m p) * sqrt (distSq m p) = X p - X m"
    and "Y (outward_normal m p) * sqrt (distSq m p) = Y p - Y m"
    and "Z (outward_normal m p) * sqrt (distSq m p) = Z p - Z m"
  using assms by (simp_all add: outward_normal_def)

lemma integrated_offset:
  fixes dt :: real
  assumes f: "reflection_fires m p v"
  defines "n \<equiv> outward_normal m p"
  defines "d \<equiv> dot3 v (outward_normal m p)"
  defines "q \<equiv> fst (integrate dt (collide m (p, v)))"
  shows "X q - X m = X n * (61 / 20) + (X v - 2 * d * X n + X n * (1 / 2)) * (99 / 100) * dt"
    and "Y q - Y m = Y n * (61 / 20) + (Y v - 2 * d * Y n + Y n * (1 / 2)) * dt"
    and "Z q - Z m = Z n * (61 / 20) + (Z v - 2 * d * Z n + Z n * (1 / 2)) * (99 / 100) * dt"
proof -
  have pos: "0 < sqrt (distSq m p)" using f by (rule fires_dist_pos)
  note nd = normal_times_dist[OF pos, symmetric]
  show "X q - X m = X n * (61 / 20) + (X v - 2 * d * X n + X n * (1 / 2)) * (99 / 100) * dt"
    using f nd(1)
    by (simp add: q_def n_def d_def integrate_def collide_eq Let_def rain_consts field_simps)
  show "Y q - Y m = Y n * (61 / 20) + (Y v - 2 * d * Y n + Y n * (1 / 2)) * dt"
    using f nd(2)
    by (simp add: q_def n_def d_def integrate_def collide_eq Let_def rain_consts field_simps)
  show "Z q - Z m = Z n * (61 / 20) + (Z v - 2 * d * Z n + Z n * (1 / 2)) * (99 / 100) * dt"
    using f nd(3)
    by (simp add: q_def n_def d_def integrate_def collide_eq Let_def rain_consts field_simps)
qed

lemma reflect_integrate_outside:
  assumes f: "reflection_fires m p v" and dt: "0 \<le> dt"
  shows "9 \<le> distSq m (fst (integrate dt (collide m (p, v))))"
proof -
  have pos: "0 < sqrt (distSq m p)" using f by (rule fires_dist_pos)
  have dneg: "X v * X (outward_normal m p) + Y v * Y (outward_normal m p)
                + Z v * Z (outward_normal m p) < 0"
    using f by (simp add: reflection_fires_def dot3_def)
  show ?thesis
    unfolding distSq_def[of m "fst (integrate dt (collide m (p, v)))"] integrated_offset[OF f]
    unfolding dot3_def
    by (rule push_integrate_bound[OF normal_unit[OF pos] dneg dt])
qed

subsection \<open>The particle loop\<close>

lemma resetParticle_length [simp]:
  "length (fst (resetParticle rnd i b st)) = length (fst st)"
  "length (fst (snd (resetParticle rnd i b st))) = length (fst (snd st))"
  by (simp_all add: resetParticle_def Let_def)

lemma store3_length [simp]: "length (store3 a i v) = length a"
  by (simp add: store3_def)

lemma particle_step_length [simp]:
  "length (fst (particle_step rnd delta m i st)) = length (fst st)"
  "length (fst (snd (particle_step rnd delta m i st))) = length (fst (snd st))"
  by (simp_all add: particle_step_def Let_def)

lemma read3_store3_same: "i3 + 2 < length a \<Longrightarrow> read3 (store3 a i3 v) i3 = v"
  by (simp add: read3_def store3_def)

lemma read3_store3_other: "i \<noteq> j \<Longrightarrow> read3 (store3 a (i * 3) v) (j * 3) = read3 a (j * 3)"
  by (simp add: read3_def store3_def)

lemma resetParticle_other:
  assumes "i \<noteq> j"
  shows "read3 (fst (resetParticle rnd i b st)) (j * 3) = read3 (fst st) (j * 3)"
    and "read3 (fst (snd (resetParticle rnd i b st))) (j * 3) = read3 (fst (snd st)) (j * 3)"
  using assms by (simp_all add: resetParticle_def Let_def read3_def)

lemma resetParticle_self:
  assumes "i * 3 + 2 < length (fst st)" "i * 3 + 2 < length (fst (snd st))"
  shows "read3 (fst (resetParticle rnd i False st)) (i * 3) =
           \<lparr>X = (rnd (snd (snd st)) - 0.5) * RAIN_RANGE_X, Y = RAIN_RANGE_Y / 2,
            Z = (rnd (snd (snd st) + 1) - 0.5) * RAIN_RANGE_Z\<rparr>"
    and "read3 (fst (snd (resetParticle rnd i False st))) (i * 3) =
           \<lparr>X = 0, Y = - (rnd (snd (snd st) + 2) * 5 + 5), Z = 0\<rparr>"
  using assms by (simp_all add: resetParticle_def Let_def read3_def)

lemma particle_step_other:
  assumes "i \<noteq> j"
  shows "read3 (fst (particle_step rnd delta m i st)) (j * 3) = read3 (fst st) (j * 3)"
    and "read3 (fst (snd (particle_step rnd delta m i st))) (j * 3) = read3 (fst (snd st)) (j * 3)"
  using assms
  by (simp_all add: particle_step_def Let_def read3_store3_other resetParticle_other)

lemma particle_step_self:
  fixes delta :: real and m :: vec3
  assumes "i * 3 + 2 < length (fst st)" "i * 3 + 2 < length (fst (snd st))"
  defines "pv \<equiv> particle_moved delta m (fst st) (fst (snd st)) i"
  shows "read3 (fst (particle_step rnd delta m i st)) (i * 3) =
           (if Y (fst pv) < - RAIN_RANGE_Y / 2
            then \<lparr>X = (rnd (snd (snd st)) - 0.5) * RAIN_RANGE_X, Y = RAIN_RANGE_Y / 2,
                  Z = (rnd (snd (snd st) + 1) - 0.5) * RAIN_RANGE_Z\<rparr>
            else fst pv)"
    and "read3 (fst (snd (particle_step rnd delta m i st))) (i * 3) =
           (if Y (fst pv) < - RAIN_RANGE_Y / 2
            then \<lparr>X = 0, Y = - (rnd (snd (snd st) + 2) * 5 + 5), Z = 0\<rparr>
            else snd pv)"
  using assms
  by (simp_all add: particle_step_def particle_moved_def Let_def read3_store3_same resetParticle_self)

lemma particle_loop_Suc:
  "particle_loop rnd delta m (Suc n) st =
     particle_step rnd delta m n (particle_loop rnd delta m n st)"
  by (simp add: particle_loop_def)

lemma particle_loop_slots:
  assumes len: "length pos = 3 * N" "length vel = 3 * N"
  shows "n \<le> N \<Longrightarrow>
     length (fst (particle_loop rnd delta m n (pos, vel, k))) = 3 * N
     \<and> length (fst (snd (particle_loop rnd delta m n (pos, vel, k)))) = 3 * N
     \<and> (\<forall>i<n. slot_done rnd (particle_moved delta m pos vel i)
                 (read3 (fst (particle_loop rnd delta m n (pos, vel, k))) (i * 3),
                  read3 (fst (snd (particle_loop rnd delta m n (pos, vel, k)))) (i * 3)))
     \<and> (\<forall>i\<ge>n. read3 (fst (particle_loop rnd delta m n (pos, vel, k))) (i * 3) = read3 pos (i * 3)
               \<and> read3 (fst (snd (particle_loop rnd delta m n (pos, vel, k)))) (i * 3)
                   = read3 vel (i * 3))"
proof (induction n)
  case 0
  then show ?case using len by (simp add: particle_loop_def)
next
  case (Suc n)
  let ?st = "particle_loop rnd delta m n (pos, vel, k)"
  from Suc have IH:
    "length (fst ?st) = 3 * N" "length (fst (snd ?st)) = 3 * N"
    "\<forall>i<n. slot_done rnd (particle_moved delta m pos vel i)
              (read3 (fst ?st) (i * 3), read3 (fst (snd ?st)) (i * 3))"
    "\<forall>i\<ge>n. read3 (fst ?st) (i * 3) = read3 pos (i * 3)
            \<and> read3 (fst (snd ?st)) (i * 3) = read3 vel (i * 3)"
    by simp_all
  from Suc.prems have nN: "n < N" by simp
  have in1: "n * 3 + 2 < length (fst ?st)" and in2: "n * 3 + 2 < length (fst (snd ?st))"
    using IH(1,2) nN by simp_all
  have same: "particle_moved delta m (fst ?st) (fst (snd ?st)) n = particle_moved delta m pos vel n"
    using IH(4) by (simp add: particle_moved_def)
  have done_n: "slot_done rnd (particle_moved delta m pos vel n)
              (read3 (fst (particle_step rnd delta m n ?st)) (n * 3),
               read3 (fst (snd (particle_step rnd delta m n ?st))) (n * 3))"
    unfolding particle_step_self[OF in1 in2] same
    by (auto simp: slot_done_def)
  have "slot_done rnd (particle_moved delta m pos vel i)
              (read3 (fst (particle_step rnd delta m n ?st)) (i * 3),
               read3 (fst (snd (particle_step rnd delta m n ?st))) (i * 3))" if "i < Suc n" for i
  proof (cases "i = n")
    case True
    then show ?thesis using done_n by simp
  next
    case False
    with that have "i < n" by simp
    with IH(3) False show ?thesis by (simp add: particle_step_other)
  qed
  moreover have "read3 (fst (particle_step rnd delta m n ?st)) (i * 3) = read3 pos (i * 3)
            \<and> read3 (fst (snd (particle_step rnd delta m n ?st))) (i * 3) = read3 vel (i * 3)"
    if "Suc n \<le> i" for i
    using that IH(4) by (simp add: particle_step_other)
  ultimately show ?case
    using IH(1,2) by (simp add: particle_loop_Suc)
qed

lemma triggerLightning_frame [simp]:
  "geometry (triggerLightning rnd s) = geometry s"
  "particles (triggerLightning rnd s) = particles s"
  "velocities (triggerLightning rnd s) = velocities s"
  "mouseWorldPos (triggerLightning rnd s) = mouseWorldPos s"
  "lightningTimer (triggerLightning rnd s) = lightningTimer s"
  "lightningIntensity (triggerLightning rnd s) = lightningIntensity s"
  "lightningMaterial (triggerLightning rnd s) = lightningMaterial s"
  by (simp_all add: triggerLightning_def Let_def split: option.splits)

lemma update_lightning_frame [simp]:
  "geometry (update_lightning rnd d s) = geometry s"
  "particles (update_lightning rnd d s) = particles s"
  "velocities (update_lightning rnd d s) = velocities s"
  "mouseWorldPos (update_lightning rnd d s) = mouseWorldPos s"
  by (simp_all add: update_lightning_def Let_def)

lemma update_lightning_part:
  assumes "geometry s \<noteq> None" "particles s"
  shows "lightningTimer (update rnd d s) = lightningTimer (update_lightning rnd d s)"
    and "lightningIntensity (update rnd d s) = lightningIntensity (update_lightning rnd d s)"
    and "lightningBolt (update rnd d s) = lightningBolt (update_lightning rnd d s)"
    and "lightningMaterial (update rnd d s) = lightningMaterial (update_lightning rnd d s)"
    and "geometry (update rnd d s) \<noteq> None"
    and "particles (update rnd d s)"
  using assms by (auto simp: update_def Let_def split: option.splits)

lemma update_particles_part:
  assumes "geometry s = Some positions" "particles s"
  shows "geometry (update rnd d s) =
           Some (fst (particle_loop rnd d (mouseWorldPos s) PARTICLE_COUNT
                        (positions, velocities s, rngPos (update_lightning rnd d s))))"
    and "velocities (update rnd d s) =
           fst (snd (particle_loop rnd d (mouseWorldPos s) PARTICLE_COUNT
                        (positions, velocities s, rngPos (update_lightning rnd d s))))"
  using assms by (simp_all add: update_def Let_def)

subsection \<open>The lightning timer and fade\<close>

lemma lightning_loop_length:
  "length (lightning_loop rnd startX stepY n k cx cy points) = length points + 3 * n"
  by (induction n arbitrary: k cx cy points) (simp_all add: Let_def)

lemma lightning_points_length: "length (lightning_points rnd k) = 63"
  by (simp add: lightning_points_def Let_def lightning_loop_length)

lemma update_lightning_fire:
  assumes bolt: "lightningBolt s = Some b" and t: "lightningTimer s - d \<le> 0"
  shows "lightningIntensity (update_lightning rnd d s) = max 0 (1 - 3 * d)"
    and "lightningTimer (update_lightning rnd d s) = rnd (rngPos s) * 5 + 2"
    and "lightningBolt (update_lightning rnd d s) =
           Some \<lparr>boltPositions = take (length (boltPositions b)) (lightning_points rnd (Suc (rngPos s)))
                                   @ drop 63 (boltPositions b),
                 drawCount = 21\<rparr>"
  using assms
  by (simp_all add: update_lightning_def triggerLightning_def Let_def lightning_points_length max_def)

lemma update_lightning_idle:
  assumes t: "0 < lightningTimer s - d"
  shows "lightningIntensity (update_lightning rnd d s) =
           (if 0 < lightningIntensity s then max 0 (lightningIntensity s - 3 * d)
            else lightningIntensity s)"
    and "lightningTimer (update_lightning rnd d s) = lightningTimer s - d"
    and "lightningBolt (update_lightning rnd d s) =
           (if 0 < lightningIntensity s then lightningBolt s
            else map_option (\<lambda>b. b\<lparr>drawCount := 0\<rparr>) (lightningBolt s))"
  using assms
  by (simp_all add: update_lightning_def Let_def max_def)

lemma updates_Cons: "updates rnd (d # ds) s = updates rnd ds (update rnd d s)"
  by (simp add: updates_def)

lemma updates_Nil: "updates rnd [] s = s"
  by (simp add: updates_def)

lemma updates_fade:
  "geometry s \<noteq> None \<Longrightarrow> particles s \<Longrightarrow> lightningBolt s \<noteq> None \<Longrightarrow>
   \<forall>d\<in>set ds. 0 \<le> d \<Longrightarrow> sum_list ds < lightningTimer s \<Longrightarrow> 0 \<le> lightningIntensity s \<Longrightarrow>
     lightningIntensity (updates rnd ds s) = max 0 (lightningIntensity s - 3 * sum_list ds)
     \<and> lightningTimer (updates rnd ds s) = lightningTimer s - sum_list ds
     \<and> geometry (updates rnd ds s) \<noteq> None \<and> particles (updates rnd ds s)
     \<and> lightningBolt (updates rnd ds s) \<noteq> None"
proof (induction ds arbitrary: s)
  case Nil
  then show ?case by (simp add: updates_Nil)
next
  case (Cons d ds)
  let ?s = "update rnd d s"
  have d0: "0 \<le> d" and ds0: "\<forall>e\<in>set ds. 0 \<le> e" using Cons.prems(4) by simp_all
  have "0 \<le> sum_list ds" using ds0 by (simp add: sum_list_nonneg)
  with Cons.prems(5) have t: "0 < lightningTimer s - d" by simp
  note part = update_lightning_part[OF Cons.prems(1,2), of rnd d]
  note idle = update_lightning_idle[OF t, of rnd]
  have I: "lightningIntensity ?s = max 0 (lightningIntensity s - 3 * d)"
    using Cons.prems(6) d0 by (simp add: part idle max_def)
  have T: "lightningTimer ?s = lightningTimer s - d" by (simp add: part idle)
  have B: "lightningBolt ?s \<noteq> None" using Cons.prems(3) by (simp add: part idle)
  have "lightningIntensity (updates rnd ds ?s) = max 0 (lightningIntensity ?s - 3 * sum_list ds)
     \<and> lightningTimer (updates rnd ds ?s) = lightningTimer ?s - sum_list ds
     \<and> geometry (updates rnd ds ?s) \<noteq> None \<and> particles (updates rnd ds ?s)
     \<and> lightningBolt (updates rnd ds ?s) \<noteq> None"
    using Cons.prems(5) by (intro Cons.IH part B ds0) (simp_all add: T I)
  moreover have "max 0 (max 0 (lightningIntensity s - 3 * d) - 3 * sum_list ds)
                  = max 0 (lightningIntensity s - 3 * (d + sum_list ds))"
    using \<open>0 \<le> sum_list ds\<close> by (simp add: max_def)
  ultimately show ?case by (simp add: updates_Cons I T)
qed

subsection \<open>The claims about RainApp\<close>

text \<open>
  Claim C1.  After any call of \<open>update\<close> on a constructed state every particle has
  \<open>position.y \<ge> - RAIN_RANGE_Y / 2\<close>: a particle whose moved \<open>y\<close> is below the floor
  is reset in the same step to \<open>y = RAIN_RANGE_Y / 2\<close> with \<open>vx = vz = 0\<close> and a fresh
  velocity \<open>vy = - (r * 5 + 5)\<close> for a draw \<open>r\<close> of the generator; every other particle
  holds its moved position and velocity.
\<close>

theorem update_recycles:
  assumes geo: "geometry s = Some positions" and par: "particles s"
    and len: "length positions = 3 * PARTICLE_COUNT" "length (velocities s) = 3 * PARTICLE_COUNT"
    and i: "i < PARTICLE_COUNT"
  shows "\<exists>positions'. geometry (update rnd delta s) = Some positions'
           \<and> - RAIN_RANGE_Y / 2 \<le> positions' ! (i * 3 + 1)
           \<and> (if Y (fst (particle_moved delta (mouseWorldPos s) positions (velocities s) i))
                   < - RAIN_RANGE_Y / 2
              then positions' ! (i * 3 + 1) = RAIN_RANGE_Y / 2
                   \<and> velocities (update rnd delta s) ! (i * 3) = 0
                   \<and> velocities (update rnd delta s) ! (i * 3 + 2) = 0
                   \<and> (\<exists>k. velocities (update rnd delta s) ! (i * 3 + 1) = - (rnd k * 5 + 5))
              else read3 positions' (i * 3)
                     = fst (particle_moved delta (mouseWorldPos s) positions (velocities s) i)
                   \<and> read3 (velocities (update rnd delta s)) (i * 3)
                     = snd (particle_moved delta (mouseWorldPos s) positions (velocities s) i))"
proof -
  let ?k = "rngPos (update_lightning rnd delta s)"
  let ?st = "particle_loop rnd delta (mouseWorldPos s) PARTICLE_COUNT (positions, velocities s, ?k)"
  let ?pv = "particle_moved delta (mouseWorldPos s) positions (velocities s) i"
  have sd: "slot_done rnd ?pv (read3 (fst ?st) (i * 3), read3 (fst (snd ?st)) (i * 3))"
    using particle_loop_slots[OF len, of PARTICLE_COUNT rnd delta "mouseWorldPos s" ?k] i
    by simp
  have slot: "if Y (fst ?pv) < - RAIN_RANGE_Y / 2
      then fst ?st ! (i * 3 + 1) = RAIN_RANGE_Y / 2 \<and> fst (snd ?st) ! (i * 3) = 0
           \<and> fst (snd ?st) ! (i * 3 + 2) = 0
           \<and> (\<exists>k. fst (snd ?st) ! (i * 3 + 1) = - (rnd k * 5 + 5))
      else read3 (fst ?st) (i * 3) = fst ?pv \<and> read3 (fst (snd ?st)) (i * 3) = snd ?pv"
  proof (cases "Y (fst ?pv) < - RAIN_RANGE_Y / 2")
    case True
    with sd show ?thesis by (simp add: slot_done_def read3_def)
  next
    case False
    with sd have "(read3 (fst ?st) (i * 3), read3 (fst (snd ?st)) (i * 3)) = ?pv"
      by (simp add: slot_done_def)
    then have "read3 (fst ?st) (i * 3) = fst ?pv \<and> read3 (fst (snd ?st)) (i * 3) = snd ?pv"
      by (metis fst_conv snd_conv)
    with False show ?thesis by simp
  qed
  have low: "- RAIN_RANGE_Y / 2 \<le> fst ?st ! (i * 3 + 1)"
  proof (cases "Y (fst ?pv) < - RAIN_RANGE_Y / 2")
    case True
    with slot show ?thesis by (simp add: RAIN_RANGE_Y_def)
  next
    case False
    with slot have "read3 (fst ?st) (i * 3) = fst ?pv" by simp
    then have "Y (read3 (fst ?st) (i * 3)) = Y (fst ?pv)" by simp
    then have "fst ?st ! (i * 3 + 1) = Y (fst ?pv)" by (simp add: read3_def)
    with False show ?thesis by simp
  qed
  show ?thesis
    unfolding update_particles_part[OF geo par]
    using slot low by simp
qed

text \<open>
  A particle at the origin with velocity \<open>(0, -200, 0)\<close> among particles at rest: after a
  frame of 0.1 s it is 20 below the origin, under the floor at -15, and its slot holds
  \<open>y = 15\<close>.
\<close>

lemma example_moved:
  "Y (fst (particle_moved (1 / 10) \<lparr>X = 9999, Y = 9999, Z = 0\<rparr>
             (replicate 30000 0) ((replicate 30000 0)[1 := - 200]) 0)) = - 2005 / 100"
  by (simp add: particle_moved_def integrate_def gravity_collide_def collide_def
      collision_normal_def read3_def Let_def rain_consts)

theorem update_recycles_witness:
  "\<exists>positions'. geometry (update (\<lambda>_. 1 / 2) (1 / 10)
                    (rain_example\<lparr>velocities := (replicate 30000 0)[1 := - 200]\<rparr>)) = Some positions'
      \<and> positions' ! 1 = 15
      \<and> velocities (update (\<lambda>_. 1 / 2) (1 / 10)
                    (rain_example\<lparr>velocities := (replicate 30000 0)[1 := - 200]\<rparr>)) ! 0 = 0"
  using update_recycles[of "rain_example\<lparr>velocities := (replicate 30000 0)[1 := - 200]\<rparr>"
      "replicate 30000 0" 0 "\<lambda>_. 1 / 2" "1 / 10"] example_moved
  by (simp add: rain_example_def PARTICLE_COUNT_def RAIN_RANGE_Y_def) blast

text \<open>
  Claim C2.  When the reflection fires for particle \<open>i\<close> (inside the sphere, upper half,
  moving inward after gravity) and the frame time is not negative, the particle pushed out
  by \<open>radius - dist + 0.05\<close> and moved with the reflected, boosted and damped velocity
  is at distance at least \<open>UMBRELLA_RADIUS\<close> from the obstacle centre; this is the
  position its slot holds at the end of the step unless the particle is below the floor
  and its slot is reset.
\<close>

theorem reflection_keeps_outside:
  assumes fires: "reflection_fires m (read3 positions (i * 3))
                    ((read3 vels (i * 3))\<lparr>Y := Y (read3 vels (i * 3)) - GRAVITY * delta\<rparr>)"
    and delta: "0 \<le> delta"
    and len: "i * 3 + 2 < length positions" "i * 3 + 2 < length vels"
  shows "UMBRELLA_RADIUS \<le> sqrt (distSq m (fst (particle_moved delta m positions vels i)))
         \<and> (\<not> Y (fst (particle_moved delta m positions vels i)) < - RAIN_RANGE_Y / 2 \<longrightarrow>
              UMBRELLA_RADIUS
                \<le> sqrt (distSq m (read3 (fst (particle_step rnd delta m i (positions, vels, k)))
                                     (i * 3))))"
proof -
  let ?pv = "particle_moved delta m positions vels i"
  have "9 \<le> distSq m (fst ?pv)"
    unfolding particle_moved_def gravity_collide_def fst_conv snd_conv
    by (rule reflect_integrate_outside[OF fires delta])
  then have "sqrt 9 \<le> sqrt (distSq m (fst ?pv))"
    by (simp only: real_sqrt_le_iff)
  moreover have "sqrt 9 = (3::real)"
    using real_sqrt_abs2[of 3] by simp
  ultimately have far: "UMBRELLA_RADIUS \<le> sqrt (distSq m (fst ?pv))"
    by (simp add: UMBRELLA_RADIUS_def)
  have "read3 (fst (particle_step rnd delta m i (positions, vels, k))) (i * 3) = fst ?pv"
    if "\<not> Y (fst ?pv) < - RAIN_RANGE_Y / 2"
    using that particle_step_self(1)[of i "(positions, vels, k)" rnd delta m] len
    by simp
  with far show ?thesis by simp
qed

text \<open>
  Obstacle at the origin, a particle one unit above it falling at 10: the reflection
  fires, and after a frame of 0.1 s the particle is at least 3 from the origin.
\<close>

theorem reflection_keeps_outside_witness:
  "reflection_fires \<lparr>X = 0, Y = 0, Z = 0\<rparr> (read3 [0, 1, 0] (0 * 3))
      ((read3 [0, - 10, 0] (0 * 3))\<lparr>Y := Y (read3 [0, - 10, 0] (0 * 3)) - GRAVITY * (1 / 10)\<rparr>)
   \<and> UMBRELLA_RADIUS
       \<le> sqrt (distSq \<lparr>X = 0, Y = 0, Z = 0\<rparr>
                 (fst (particle_moved (1 / 10) \<lparr>X = 0, Y = 0, Z = 0\<rparr> [0, 1, 0] [0, - 10, 0] 0)))
   \<and> Y (fst (particle_moved (1 / 10) \<lparr>X = 0, Y = 0, Z = 0\<rparr> [0, 1, 0] [0, - 10, 0] 0)) = 83 / 20
   \<and> UMBRELLA_RADIUS
       \<le> sqrt (distSq \<lparr>X = 0, Y = 0, Z = 0\<rparr>
                 (read3 (fst (particle_step (\<lambda>_. 1 / 2) (1 / 10) \<lparr>X = 0, Y = 0, Z = 0\<rparr> 0
                                ([0, 1, 0], [0, - 10, 0], 0))) (0 * 3)))"
proof -
  have y: "Y (fst (particle_moved (1 / 10) \<lparr>X = 0, Y = 0, Z = 0\<rparr> [0, 1, 0] [0, - 10, 0] 0)) = 83 / 20"
    by (simp add: particle_moved_def integrate_def gravity_collide_def collide_def
        collision_normal_def read3_def Let_def rain_consts)
  have f: "reflection_fires \<lparr>X = 0, Y = 0, Z = 0\<rparr> (read3 [0, 1, 0] (0 * 3))
      ((read3 [0, - 10, 0] (0 * 3))\<lparr>Y := Y (read3 [0, - 10, 0] (0 * 3)) - GRAVITY * (1 / 10)\<rparr>)"
    by (simp add: reflection_fires_def distSq_def outward_normal_def dot3_def read3_def rain_consts)
  show ?thesis
    using f y reflection_keeps_outside[OF f, of "\<lambda>_. 1 / 2" 0]
    by (simp add: RAIN_RANGE_Y_def)
qed

text \<open>
  Claim C3.  The collision step changes the velocity of a particle if and only if its
  squared distance to the obstacle centre is below the squared radius, the y-component of
  its offset is positive and the dot product of its velocity with the outward normal is
  negative; then the new velocity is \<open>v - 2 (v \<cdot> n) n + BOUNCE_FORCE n\<close>, and in every
  other case position and velocity are unchanged.
\<close>

theorem collide_changes_iff:
  "(snd (collide m (p, v)) \<noteq> v \<longleftrightarrow> reflection_fires m p v)
   \<and> (reflection_fires m p v \<longrightarrow>
        snd (collide m (p, v)) =
          \<lparr>X = X v - 2 * dot3 v (outward_normal m p) * X (outward_normal m p)
                 + X (outward_normal m p) * BOUNCE_FORCE,
           Y = Y v - 2 * dot3 v (outward_normal m p) * Y (outward_normal m p)
                 + Y (outward_normal m p) * BOUNCE_FORCE,
           Z = Z v - 2 * dot3 v (outward_normal m p) * Z (outward_normal m p)
                 + Z (outward_normal m p) * BOUNCE_FORCE\<rparr>)
   \<and> (\<not> reflection_fires m p v \<longrightarrow> collide m (p, v) = (p, v))"
proof -
  have ch: "snd (collide m (p, v)) \<noteq> v" if f: "reflection_fires m p v"
  proof -
    let ?n = "outward_normal m p"
    let ?d = "dot3 v ?n"
    from f have ny: "0 < Y ?n" and d: "?d < 0"
      using normal_Y_pos[of m p] by (simp_all add: reflection_fires_def)
    have "0 < (BOUNCE_FORCE - 2 * ?d) * Y ?n"
      using ny d by (intro mult_pos_pos) (simp_all add: BOUNCE_FORCE_def)
    moreover have "Y v - 2 * ?d * Y ?n + Y ?n * BOUNCE_FORCE = Y v + (BOUNCE_FORCE - 2 * ?d) * Y ?n"
      by (simp add: algebra_simps)
    ultimately have "Y v - 2 * ?d * Y ?n + Y ?n * BOUNCE_FORCE \<noteq> Y v"
      by linarith
    then have "Y (snd (collide m (p, v))) \<noteq> Y v"
      using f by (simp add: collide_eq Let_def)
    then show ?thesis by auto
  qed
  show ?thesis
    using ch by (auto simp: collide_eq Let_def)
qed

text \<open>
  The particle one unit above the obstacle falling at 10 is reflected to \<open>vy = 10.5\<close>; the
  same particle one unit below the obstacle keeps its velocity.
\<close>

theorem collide_changes_iff_witness:
  "reflection_fires \<lparr>X = 0, Y = 0, Z = 0\<rparr> \<lparr>X = 0, Y = 1, Z = 0\<rparr> \<lparr>X = 0, Y = - 10, Z = 0\<rparr>
   \<and> snd (collide \<lparr>X = 0, Y = 0, Z = 0\<rparr> (\<lparr>X = 0, Y = 1, Z = 0\<rparr>, \<lparr>X = 0, Y = - 10, Z = 0\<rparr>))
       = \<lparr>X = 0, Y = 21 / 2, Z = 0\<rparr>
   \<and> \<not> reflection_fires \<lparr>X = 0, Y = 0, Z = 0\<rparr> \<lparr>X = 0, Y = - 1, Z = 0\<rparr> \<lparr>X = 0, Y = - 10, Z = 0\<rparr>
   \<and> collide \<lparr>X = 0, Y = 0, Z = 0\<rparr> (\<lparr>X = 0, Y = - 1, Z = 0\<rparr>, \<lparr>X = 0, Y = - 10, Z = 0\<rparr>)
       = (\<lparr>X = 0, Y = - 1, Z = 0\<rparr>, \<lparr>X = 0, Y = - 10, Z = 0\<rparr>)"
proof -
  have f: "reflection_fires \<lparr>X = 0, Y = 0, Z = 0\<rparr> \<lparr>X = 0, Y = 1, Z = 0\<rparr> \<lparr>X = 0, Y = - 10, Z = 0\<rparr>"
    by (simp add: reflection_fires_def distSq_def outward_normal_def dot3_def rain_consts)
  have g: "\<not> reflection_fires \<lparr>X = 0, Y = 0, Z = 0\<rparr> \<lparr>X = 0, Y = - 1, Z = 0\<rparr> \<lparr>X = 0, Y = - 10, Z = 0\<rparr>"
    by (simp add: reflection_fires_def)
  show ?thesis
    using f g
      collide_changes_iff[of "\<lparr>X = 0, Y = 0, Z = 0\<rparr>" "\<lparr>X = 0, Y = 1, Z = 0\<rparr>" "\<lparr>X = 0, Y = - 10, Z = 0\<rparr>"]
      collide_changes_iff[of "\<lparr>X = 0, Y = 0, Z = 0\<rparr>" "\<lparr>X = 0, Y = - 1, Z = 0\<rparr>" "\<lparr>X = 0, Y = - 10, Z = 0\<rparr>"]
    by (simp add: distSq_def outward_normal_def dot3_def rain_consts)
qed

text \<open>
  Claim C4, as the source has it.  A particle at distance exactly \<open>UMBRELLA_RADIUS\<close> is
  outside (the test is a strict \<open><\<close> on the squared distance): no normal is computed and the
  collision step leaves it untouched.  A particle exactly at the obstacle centre is inside:
  the source has no guard and divides the zero offset by \<open>dist = 0\<close>; the reflection is
  skipped all the same, because the test \<open>ny > 0\<close> on the quotient fails, and the collision
  step leaves position and velocity unchanged.
\<close>

theorem boundary_and_centre:
  "(distSq m p = UMBRELLA_RADIUS * UMBRELLA_RADIUS \<longrightarrow>
      collision_normal m p = None \<and> collide m (p, v) = (p, v))
   \<and> (\<exists>n. collision_normal m m = Some (0, n))
   \<and> collide m (m, v) = (m, v)"
proof -
  have "distSq m m = 0" by (simp add: distSq_def)
  then have "collision_normal m m = Some (0, outward_normal m m)"
    by (simp add: collision_normal_eq UMBRELLA_RADIUS_def)
  moreover have "\<not> reflection_fires m m v" by (simp add: reflection_fires_def)
  moreover have "\<not> reflection_fires m p v" if "distSq m p = UMBRELLA_RADIUS * UMBRELLA_RADIUS"
    using that by (simp add: reflection_fires_def)
  ultimately show ?thesis
    by (simp add: collide_eq collision_normal_eq)
qed

theorem boundary_and_centre_witness:
  "distSq \<lparr>X = 0, Y = 0, Z = 0\<rparr> \<lparr>X = 0, Y = 3, Z = 0\<rparr> = UMBRELLA_RADIUS * UMBRELLA_RADIUS
   \<and> collide \<lparr>X = 0, Y = 0, Z = 0\<rparr> (\<lparr>X = 0, Y = 3, Z = 0\<rparr>, \<lparr>X = 0, Y = - 10, Z = 0\<rparr>)
       = (\<lparr>X = 0, Y = 3, Z = 0\<rparr>, \<lparr>X = 0, Y = - 10, Z = 0\<rparr>)"
  using boundary_and_centre[of "\<lparr>X = 0, Y = 0, Z = 0\<rparr>" "\<lparr>X = 0, Y = 3, Z = 0\<rparr>" "\<lparr>X = 0, Y = - 10, Z = 0\<rparr>"]
  by (simp add: distSq_def UMBRELLA_RADIUS_def)

text \<open>
  The claim as stated fails: with obstacle and particle both at the origin the source
  reaches the normalisation, and the divisor is 0.
\<close>

theorem centre_divides_by_zero:
  "collision_normal \<lparr>X = 0, Y = 0, Z = 0\<rparr> \<lparr>X = 0, Y = 0, Z = 0\<rparr>
     = Some (0, \<lparr>X = 0, Y = 0, Z = 0\<rparr>)"
  by (simp add: collision_normal_def UMBRELLA_RADIUS_def)

text \<open>
  Claim C5, as the source has it.  With the lightning timer at 0, the first \<open>update\<close> with
  a frame time \<open>delta \<ge> 0\<close> fires: the bolt holds the 21 points of a new polyline and its
  draw range is \<open>(0, 21)\<close>; the fade of that same frame is already applied, so the intensity
  is \<open>max 0 (1 - 3 delta)\<close> when the call returns.  After further frames that add up to
  at least 1/3 s and 1 ms the intensity is 0, and the update after that leaves the draw range
  empty (the range is collapsed by an update that starts with intensity 0, not by the one in
  which the intensity reaches 0).  The frames add up to at most 1 s, so that the timer, set
  to at least 2 s by the firing frame, does not fire again.  The margin of 1 ms keeps the
  statement away from the frame in which the exact intensity is 0 and the intensity computed
  in doubles can still be a rounding error above it.
\<close>

theorem discharge_scenario:
  assumes geo: "geometry s \<noteq> None" "particles s"
    and bolt: "lightningBolt s = Some b" "length (boltPositions b) = 150"
    and timer: "lightningTimer s = 0"
    and delta: "0 \<le> delta"
    and rand: "0 \<le> rnd (rngPos s)"
    and ds: "\<forall>d\<in>set ds. 0 \<le> d" "1 / 3 + 1 / 1000 \<le> sum_list ds"
    and d': "0 \<le> d'" "sum_list ds + d' \<le> 1"
  shows "lightningBolt (update rnd delta s)
           = Some \<lparr>boltPositions = lightning_points rnd (Suc (rngPos s)) @ drop 63 (boltPositions b),
                   drawCount = 21\<rparr>
         \<and> length (lightning_points rnd (Suc (rngPos s))) = 63
         \<and> lightningIntensity (update rnd delta s) = max 0 (1 - 3 * delta)
         \<and> lightningIntensity (updates rnd ds (update rnd delta s)) = 0
         \<and> lightningIntensity (update rnd d' (updates rnd ds (update rnd delta s))) = 0
         \<and> (\<exists>b'. lightningBolt (update rnd d' (updates rnd ds (update rnd delta s))) = Some b'
                  \<and> drawCount b' = 0)"
proof -
  let ?s1 = "update rnd delta s"
  let ?s2 = "updates rnd ds ?s1"
  let ?s3 = "update rnd d' ?s2"
  have t: "lightningTimer s - delta \<le> 0" using timer delta by simp
  note p1 = update_lightning_part[OF geo, of rnd delta]
  note f1 = update_lightning_fire[OF bolt(1) t, of rnd]
  have B1: "lightningBolt ?s1
           = Some \<lparr>boltPositions = lightning_points rnd (Suc (rngPos s)) @ drop 63 (boltPositions b),
                   drawCount = 21\<rparr>"
    using bolt(2) by (simp add: p1 f1 lightning_points_length)
  have I1: "lightningIntensity ?s1 = max 0 (1 - 3 * delta)" by (simp add: p1 f1)
  have T1: "lightningTimer ?s1 = rnd (rngPos s) * 5 + 2" by (simp add: p1 f1)
  have T1': "sum_list ds < lightningTimer ?s1" using rand d' by (simp add: T1)
  have fade: "lightningIntensity ?s2 = max 0 (lightningIntensity ?s1 - 3 * sum_list ds)
     \<and> lightningTimer ?s2 = lightningTimer ?s1 - sum_list ds
     \<and> geometry ?s2 \<noteq> None \<and> particles ?s2 \<and> lightningBolt ?s2 \<noteq> None"
    using ds(1) T1' by (intro updates_fade p1) (simp_all add: B1 I1)
  have I2: "lightningIntensity ?s2 = 0"
    using fade delta ds(2) by (simp add: I1 max_def)
  have T2: "0 < lightningTimer ?s2 - d'"
    using fade rand d' by (simp add: T1)
  from fade have g2: "geometry ?s2 \<noteq> None" "particles ?s2" by simp_all
  from fade obtain b2 where b2: "lightningBolt ?s2 = Some b2" by auto
  note p3 = update_lightning_part[OF g2, of rnd d']
  note i3 = update_lightning_idle[OF T2, of rnd]
  have I3: "lightningIntensity ?s3 = 0" by (simp add: p3 i3 I2)
  have B3: "lightningBolt ?s3 = Some (b2\<lparr>drawCount := 0\<rparr>)" by (simp add: p3 i3 I2 b2)
  show ?thesis
    using B1 I1 I2 I3 B3 by (simp add: lightning_points_length)
qed

text \<open>
  The constructed example with the timer at 0: a first frame of 0 s leaves intensity 1 and
  21 points; eleven frames of 1/30 s later the intensity is 0, and one more frame of 1/30 s
  empties the draw range.
\<close>

theorem discharge_scenario_witness:
  "lightningTimer rain_example = 0
   \<and> 1 / 3 + 1 / 1000 \<le> sum_list (replicate 11 (1 / 30 :: real))
   \<and> sum_list (replicate 11 (1 / 30 :: real)) + 1 / 30 \<le> 1
   \<and> lightningIntensity (update (\<lambda>_. 1 / 2) 0 rain_example) = 1
   \<and> (\<exists>b'. lightningBolt (update (\<lambda>_. 1 / 2) 0 rain_example) = Some b' \<and> drawCount b' = 21)
   \<and> lightningIntensity (updates (\<lambda>_. 1 / 2) (replicate 11 (1 / 30))
                           (update (\<lambda>_. 1 / 2) 0 rain_example)) = 0
   \<and> (\<exists>b'. lightningBolt (update (\<lambda>_. 1 / 2) (1 / 30)
                (updates (\<lambda>_. 1 / 2) (replicate 11 (1 / 30))
                   (update (\<lambda>_. 1 / 2) 0 rain_example))) = Some b'
            \<and> drawCount b' = 0)"
  using discharge_scenario[of rain_example "\<lparr>boltPositions = replicate 150 0, drawCount = 0\<rparr>"
      0 "\<lambda>_. 1 / 2" "replicate 11 (1 / 30)" "1 / 30"]
  by (simp add: rain_example_def sum_list_replicate)

text \<open>
  The claim as stated fails.  After a first frame of 1/16 s the intensity is 13/16, not 1.
  After a first frame of 0 s the intensity is 1, but then after four frames of 1/12 s
  (1/3 s in all) the intensity is 0 and the draw range still holds the 21 points.
\<close>

lemma example_fired:
  "geometry (update (\<lambda>_. 1 / 2) 0 rain_example) \<noteq> None"
  "particles (update (\<lambda>_. 1 / 2) 0 rain_example)"
  "lightningTimer (update (\<lambda>_. 1 / 2) 0 rain_example) = 9 / 2"
  "lightningIntensity (update (\<lambda>_. 1 / 2) 0 rain_example) = 1"
  "\<exists>b. lightningBolt (update (\<lambda>_. 1 / 2) 0 rain_example) = Some b \<and> drawCount b = 21"
proof -
  have g: "geometry rain_example \<noteq> None" "particles rain_example"
    by (simp_all add: rain_example_def)
  have b: "lightningBolt rain_example = Some \<lparr>boltPositions = replicate 150 0, drawCount = 0\<rparr>"
    by (simp add: rain_example_def)
  have t: "lightningTimer rain_example - 0 \<le> 0" by (simp add: rain_example_def)
  note p = update_lightning_part[OF g, of "\<lambda>_. 1 / 2" 0]
  note f = update_lightning_fire[OF b t, of "\<lambda>_. 1 / 2"]
  show "geometry (update (\<lambda>_. 1 / 2) 0 rain_example) \<noteq> None"
    "particles (update (\<lambda>_. 1 / 2) 0 rain_example)"
    by (rule p)+
  show "lightningTimer (update (\<lambda>_. 1 / 2) 0 rain_example) = 9 / 2" by (simp add: p f)
  show "lightningIntensity (update (\<lambda>_. 1 / 2) 0 rain_example) = 1" by (simp add: p f)
  show "\<exists>b. lightningBolt (update (\<lambda>_. 1 / 2) 0 rain_example) = Some b \<and> drawCount b = 21"
    by (simp add: p f)
qed

lemma update_idle_positive:
  assumes "geometry s \<noteq> None" "particles s"
    and "0 < lightningTimer s - d" and "0 < lightningIntensity s"
  shows "geometry (update rnd d s) \<noteq> None" "particles (update rnd d s)"
    and "lightningTimer (update rnd d s) = lightningTimer s - d"
    and "lightningIntensity (update rnd d s) = max 0 (lightningIntensity s - 3 * d)"
    and "lightningBolt (update rnd d s) = lightningBolt s"
  using assms update_lightning_part[OF assms(1,2), of rnd d] update_lightning_idle[OF assms(3), of rnd]
  by simp_all

theorem discharge_scenario_fails:
  "lightningIntensity (update (\<lambda>_. 1 / 2) (1 / 16) rain_example) = 13 / 16
   \<and> lightningIntensity (update (\<lambda>_. 1 / 2) 0 rain_example) = 1
   \<and> lightningIntensity (updates (\<lambda>_. 1 / 2) [1 / 12, 1 / 12, 1 / 12, 1 / 12]
                           (update (\<lambda>_. 1 / 2) 0 rain_example)) = 0
   \<and> (\<exists>b. lightningBolt (updates (\<lambda>_. 1 / 2) [1 / 12, 1 / 12, 1 / 12, 1 / 12]
                           (update (\<lambda>_. 1 / 2) 0 rain_example)) = Some b
          \<and> drawCount b = 21)"
proof -
  let ?r = "\<lambda>_::nat. 1 / 2 :: real"
  have g: "geometry rain_example \<noteq> None" "particles rain_example"
    by (simp_all add: rain_example_def)
  have b: "lightningBolt rain_example = Some \<lparr>boltPositions = replicate 150 0, drawCount = 0\<rparr>"
    by (simp add: rain_example_def)
  have t: "lightningTimer rain_example - 1 / 16 \<le> 0" by (simp add: rain_example_def)
  have first: "lightningIntensity (update ?r (1 / 16) rain_example) = 13 / 16"
    by (simp add: update_lightning_part[OF g] update_lightning_fire[OF b t])
  let ?s0 = "update ?r 0 rain_example"
  let ?s1 = "update ?r (1 / 12) ?s0"
  let ?s2 = "update ?r (1 / 12) ?s1"
  let ?s3 = "update ?r (1 / 12) ?s2"
  let ?s4 = "update ?r (1 / 12) ?s3"
  note s0 = example_fired
  have s1: "geometry ?s1 \<noteq> None" "particles ?s1" "lightningTimer ?s1 = 53 / 12"
    "lightningIntensity ?s1 = 3 / 4" "lightningBolt ?s1 = lightningBolt ?s0"
    using update_idle_positive[OF s0(1,2), of "1 / 12" ?r] by (simp_all add: s0(3,4))
  have s2: "geometry ?s2 \<noteq> None" "particles ?s2" "lightningTimer ?s2 = 52 / 12"
    "lightningIntensity ?s2 = 1 / 2" "lightningBolt ?s2 = lightningBolt ?s0"
    using update_idle_positive[OF s1(1,2), of "1 / 12" ?r] by (simp_all add: s1(3,4,5))
  have s3: "geometry ?s3 \<noteq> None" "particles ?s3" "lightningTimer ?s3 = 51 / 12"
    "lightningIntensity ?s3 = 1 / 4" "lightningBolt ?s3 = lightningBolt ?s0"
    using update_idle_positive[OF s2(1,2), of "1 / 12" ?r] by (simp_all add: s2(3,4,5))
  have s4: "lightningIntensity ?s4 = 0" "lightningBolt ?s4 = lightningBolt ?s0"
    using update_idle_positive[OF s3(1,2), of "1 / 12" ?r] by (simp_all add: s3(3,4,5))
  have run: "updates ?r [1 / 12, 1 / 12, 1 / 12, 1 / 12] ?s0 = ?s4"
    by (simp add: updates_def)
  show ?thesis
    unfolding run using first s0(4,5) s4 by simp
qed

section \<open>Properties of AvatarNetworkApp\<close>

lemma appends_refl: "appends g s s"
  by (auto simp: appends_def intro: exI[of _ "[]"])

lemma appends_randPos: "appends g s (s\<lparr>randPos := k\<rparr>)"
  by (auto simp: appends_def intro: exI[of _ "[]"])

lemma appends_trans:
  assumes "appends g s s'" "appends g s' s''"
  shows "appends g s s''"
proof -
  from assms(1) obtain ys where ys: "branches s' = branches s @ map fst ys"
    "branchLines s' = branchLines s @ map snd ys" "list_all (spawned g) ys"
    by (auto simp: appends_def)
  from assms(2) obtain zs where zs: "branches s'' = branches s' @ map fst zs"
    "branchLines s'' = branchLines s' @ map snd zs" "list_all (spawned g) zs"
    by (auto simp: appends_def)
  have "branches s'' = branches s @ map fst (ys @ zs)"
    "branchLines s'' = branchLines s @ map snd (ys @ zs)" "list_all (spawned g) (ys @ zs)"
    using ys zs by simp_all
  then have "\<exists>ws. branches s'' = branches s @ map fst ws
          \<and> branchLines s'' = branchLines s @ map snd ws \<and> list_all (spawned g) ws"
    by blast
  moreover have "length (branches s'') \<le> max MAX_BRANCHES (length (branches s))"
    using assms by (auto simp: appends_def)
  ultimately show ?thesis
    using assms by (simp add: appends_def)
qed

lemma appends_createBranch: "appends g s (createBranch st d g s)"
proof (cases "length (branches s) \<ge> MAX_BRANCHES")
  case True
  then show ?thesis by (simp add: createBranch_def appends_refl)
next
  case False
  have "spawned g (new_branch st d g, new_mesh st d g)"
    by (auto simp: spawned_def)
  then have "\<exists>ys. branches s @ [new_branch st d g] = branches s @ map fst ys
      \<and> branchLines s @ [new_mesh st d g] = branchLines s @ map snd ys \<and> list_all (spawned g) ys"
    by (intro exI[of _ "[(new_branch st d g, new_mesh st d g)]"]) simp
  with False show ?thesis
    by (simp add: createBranch_def appends_def)
qed

lemma appends_spawn_loop: "appends (Suc (generation b)) s (spawn_loop rnd b n s)"
proof (induction n arbitrary: s)
  case 0
  show ?case by (simp add: appends_refl)
next
  case (Suc n)
  show ?case
    unfolding spawn_loop.simps Let_def Suc_eq_plus1[symmetric]
    by (rule appends_trans[OF _ Suc.IH])
       (rule appends_trans[OF appends_randPos appends_createBranch])
qed

lemma appends_branchOut: "appends (Suc (generation b)) s (branchOut rnd b s)"
  unfolding branchOut_def Let_def
  by (simp add: appends_refl appends_randPos appends_trans[OF appends_randPos appends_spawn_loop])

lemma branchOut_limit: "MAX_GENERATION \<le> generation b \<Longrightarrow> branchOut rnd b s = s"
  by (simp add: branchOut_def)

lemma spawn_state_appends:
  assumes "completes delta (branches s ! k)"
  shows "appends (Suc (generation (branches s ! k)))
           (s\<lparr>branches := (branches s)[k := finished (branches s ! k)], spawnLog := k # spawnLog s\<rparr>)
           (spawn_state rnd delta k s)"
  using assms appends_branchOut[of "finished (branches s ! k)"]
  by (simp add: spawn_state_def finished_def)

lemma spawn_state_char:
  assumes "completes delta (branches s ! k)"
  obtains ys where "branches (spawn_state rnd delta k s)
                      = (branches s)[k := finished (branches s ! k)] @ map fst ys"
    and "branchLines (spawn_state rnd delta k s) = branchLines s @ map snd ys"
    and "list_all (spawned (Suc (generation (branches s ! k)))) ys"
    and "length (branches (spawn_state rnd delta k s)) \<le> max MAX_BRANCHES (length (branches s))"
    and "elapsedTime (spawn_state rnd delta k s) = elapsedTime s"
    and "spawnLog (spawn_state rnd delta k s) = k # spawnLog s"
proof -
  note ap = spawn_state_appends[OF assms, of rnd]
  from ap have "\<exists>ys. branches (spawn_state rnd delta k s)
                      = (branches s)[k := finished (branches s ! k)] @ map fst ys
      \<and> branchLines (spawn_state rnd delta k s) = branchLines s @ map snd ys
      \<and> list_all (spawned (Suc (generation (branches s ! k)))) ys"
    by (simp add: appends_def)
  moreover from ap have "length (branches (spawn_state rnd delta k s)) \<le> max MAX_BRANCHES (length (branches s))"
    "elapsedTime (spawn_state rnd delta k s) = elapsedTime s"
    "spawnLog (spawn_state rnd delta k s) = k # spawnLog s"
    by (simp_all add: appends_def)
  ultimately show thesis using that by blast
qed

lemma finished_sel [simp]:
  "start (finished b) = start b" "end_pos (finished b) = end_pos b"
  "direction (finished b) = direction b" "age (finished b) = age b"
  "generation (finished b) = generation b" "isGrowing (finished b) = False"
  "branch_length (finished b) = targetLength b" "targetLength (finished b) = targetLength b"
  "color (finished b) = color b"
  by (simp_all add: finished_def)

lemma mesh_update_guard:
  "(if k < length (branchLines s) then s\<lparr>branchLines := (branchLines s)[k := v]\<rparr> else s)
     = s\<lparr>branchLines := (branchLines s)[k := v]\<rparr>"
  by (simp add: list_update_beyond)

lemma grow_branch_eq:
  assumes k: "k < length (branches s)" and grow: "isGrowing (branches s ! k)"
  shows "grow_branch rnd delta k s =
     (spawn_state rnd delta k s)
       \<lparr>branches := (branches (spawn_state rnd delta k s))
           [k := (step_branch delta (branches s ! k))\<lparr>age := age (branches s ! k)\<rparr>],
        branchLines := (branchLines (spawn_state rnd delta k s))
           [k := regrow_mesh (step_branch delta (branches s ! k))
                   (branchLines (spawn_state rnd delta k s) ! k)]\<rparr>"
proof (cases "completes delta (branches s ! k)")
  case False
  then have sx: "spawn_state rnd delta k s = s" by (simp add: spawn_state_def)
  from False grow have nc:
    "\<not> targetLength (branches s ! k) \<le> branch_length (branches s ! k) + GROWTH_SPEED * delta"
    by (simp add: completes_def)
  have sb: "step_branch delta (branches s ! k) =
      (branches s ! k)\<lparr>branch_length := branch_length (branches s ! k) + GROWTH_SPEED * delta,
        end_pos := vadd (start (branches s ! k))
           (multiplyScalar (direction (branches s ! k))
              (branch_length (branches s ! k) + GROWTH_SPEED * delta)),
        age := age (branches s ! k) + delta\<rparr>"
    using grow False by (simp add: step_branch_def)
  show ?thesis
    unfolding sx sb using nc
    by (simp add: grow_branch_def Let_def regrow_mesh_def list_update_beyond)
next
  case True
  let ?sx = "spawn_state rnd delta k s"
  obtain ys where
      ys: "branches ?sx = (branches s)[k := finished (branches s ! k)] @ map fst ys"
      and "branchLines ?sx = branchLines s @ map snd ys"
      and "list_all (spawned (Suc (generation (branches s ! k)))) ys"
      and "length (branches ?sx) \<le> max MAX_BRANCHES (length (branches s))"
      and "elapsedTime ?sx = elapsedTime s"
      and "spawnLog ?sx = k # spawnLog s"
    by (rule spawn_state_char[OF True, of rnd])
  have klen: "k < length (branches ?sx)" using k by (simp add: ys)
  have sx: "branchOut rnd (finished (branches s ! k))
             (s\<lparr>branches := (branches s)[k := finished (branches s ! k)],
                spawnLog := k # spawnLog s\<rparr>) = ?sx"
    using True by (simp add: spawn_state_def)
  from True have c:
    "targetLength (branches s ! k) \<le> branch_length (branches s ! k) + GROWTH_SPEED * delta"
    by (simp add: completes_def)
  have fin: "(branches s ! k)\<lparr>branch_length := targetLength (branches s ! k), isGrowing := False\<rparr>
                 = finished (branches s ! k)"
    by (simp add: finished_def)
  have sb: "step_branch delta (branches s ! k) =
      (finished (branches s ! k))\<lparr>end_pos := vadd (start (branches s ! k))
           (multiplyScalar (direction (branches s ! k)) (targetLength (branches s ! k))),
        age := age (branches s ! k) + delta\<rparr>"
    using grow True by (simp add: step_branch_def)
  have g: "grow_branch rnd delta k s =
     (let sc = ?sx\<lparr>branches := (branches ?sx)
                 [k := (finished (branches s ! k))\<lparr>end_pos := vadd (start (branches s ! k))
                     (multiplyScalar (direction (branches s ! k)) (targetLength (branches s ! k)))\<rparr>]\<rparr>
      in if k < length (branchLines sc)
         then sc\<lparr>branchLines := (branchLines sc)
                  [k := regrow_mesh ((finished (branches s ! k))\<lparr>end_pos := vadd (start (branches s ! k))
                     (multiplyScalar (direction (branches s ! k)) (targetLength (branches s ! k)))\<rparr>)
                     (branchLines sc ! k)]\<rparr>
         else sc)"
    using c by (simp add: grow_branch_def fin sx Let_def)
  show ?thesis
    unfolding g sb
    by (simp add: Let_def regrow_mesh_def list_update_beyond finished_def)
qed

lemma update_branch_eq:
  assumes k: "k < length (branches s)"
  shows "update_branch rnd delta k s =
     (spawn_state rnd delta k s)
       \<lparr>branches := (branches (spawn_state rnd delta k s))[k := step_branch delta (branches s ! k)],
        branchLines := (branchLines (spawn_state rnd delta k s))
           [k := step_mesh (elapsedTime s) delta (branches s ! k)
                   (branchLines (spawn_state rnd delta k s) ! k)]\<rparr>"
proof (cases "isGrowing (branches s ! k)")
  case False
  then have sx: "spawn_state rnd delta k s = s" by (simp add: spawn_state_def completes_def)
  show ?thesis
    unfolding sx using False
    by (simp add: update_branch_def Let_def step_branch_def step_mesh_def list_update_beyond)
next
  case True
  let ?sx = "spawn_state rnd delta k s"
  have klen: "k < length (branches ?sx)"
  proof (cases "completes delta (branches s ! k)")
    case True
    obtain ys where
      ys: "branches ?sx = (branches s)[k := finished (branches s ! k)] @ map fst ys"
      and "branchLines ?sx = branchLines s @ map snd ys"
      and "list_all (spawned (Suc (generation (branches s ! k)))) ys"
      and "length (branches ?sx) \<le> max MAX_BRANCHES (length (branches s))"
      and "elapsedTime ?sx = elapsedTime s"
      and "spawnLog ?sx = k # spawnLog s"
      by (rule spawn_state_char[OF True, of rnd])
    show ?thesis using k by (simp add: ys)
  next
    case False
    then show ?thesis using k by (simp add: spawn_state_def)
  qed
  have et: "elapsedTime ?sx = elapsedTime s"
  proof (cases "completes delta (branches s ! k)")
    case True
    obtain ys where
      "branches ?sx = (branches s)[k := finished (branches s ! k)] @ map fst ys"
      and "branchLines ?sx = branchLines s @ map snd ys"
      and "list_all (spawned (Suc (generation (branches s ! k)))) ys"
      and "length (branches ?sx) \<le> max MAX_BRANCHES (length (branches s))"
      and et: "elapsedTime ?sx = elapsedTime s"
      and "spawnLog ?sx = k # spawnLog s"
      by (rule spawn_state_char[OF True, of rnd])
    show ?thesis by (rule et)
  next
    case False
    then show ?thesis by (simp add: spawn_state_def)
  qed
  have new_age: "age (step_branch delta (branches s ! k)) = age (branches s ! k) + delta"
    by (simp add: step_branch_def Let_def)
  have same_age: "(step_branch delta (branches s ! k))\<lparr>age := age (branches s ! k) + delta\<rparr>
                = step_branch delta (branches s ! k)"
    using new_age by simp
  show ?thesis
    using True klen
    by (simp add: update_branch_def grow_branch_eq[OF k True] Let_def et same_age new_age step_mesh_def
        list_update_beyond)
qed

lemma spawn_state_idle:
  assumes "\<not> completes delta (branches s ! k) \<or> MAX_GENERATION \<le> generation (branches s ! k)"
  shows "branches (spawn_state rnd delta k s)
           = (if completes delta (branches s ! k) then (branches s)[k := finished (branches s ! k)]
              else branches s)"
    and "branchLines (spawn_state rnd delta k s) = branchLines s"
    and "elapsedTime (spawn_state rnd delta k s) = elapsedTime s"
    and "spawnLog (spawn_state rnd delta k s)
           = (if completes delta (branches s ! k) then k # spawnLog s else spawnLog s)"
  using assms by (auto simp: spawn_state_def branchOut_limit)

lemma update_branch_lists:
  assumes k: "k < length (branches s)"
  obtains ys where
    "branches (update_branch rnd delta k s)
       = (branches s)[k := step_branch delta (branches s ! k)] @ map fst ys"
    and "branchLines (update_branch rnd delta k s)
       = (branchLines s @ map snd ys)
           [k := step_mesh (elapsedTime s) delta (branches s ! k) ((branchLines s @ map snd ys) ! k)]"
    and "list_all (spawned (Suc (generation (branches s ! k)))) ys"
    and "ys \<noteq> [] \<longrightarrow> completes delta (branches s ! k)
                       \<and> generation (branches s ! k) < MAX_GENERATION"
    and "length (branches (update_branch rnd delta k s)) \<le> max MAX_BRANCHES (length (branches s))"
    and "elapsedTime (update_branch rnd delta k s) = elapsedTime s"
    and "spawnLog (update_branch rnd delta k s)
           = (if completes delta (branches s ! k) then k # spawnLog s else spawnLog s)"
proof (cases "completes delta (branches s ! k) \<and> generation (branches s ! k) < MAX_GENERATION")
  case True
  let ?sx = "spawn_state rnd delta k s"
  from True have c: "completes delta (branches s ! k)" by simp
  obtain ys where
      ys: "branches ?sx = (branches s)[k := finished (branches s ! k)] @ map fst ys"
      and ms: "branchLines ?sx = branchLines s @ map snd ys"
      and sp: "list_all (spawned (Suc (generation (branches s ! k)))) ys"
      and ln: "length (branches ?sx) \<le> max MAX_BRANCHES (length (branches s))"
      and et: "elapsedTime ?sx = elapsedTime s"
      and lg: "spawnLog ?sx = k # spawnLog s"
    by (rule spawn_state_char[OF c, of rnd])
  show ?thesis
  proof (rule that[of ys])
    show "branches (update_branch rnd delta k s)
       = (branches s)[k := step_branch delta (branches s ! k)] @ map fst ys"
      using k by (simp add: update_branch_eq ys list_update_append1)
    show "branchLines (update_branch rnd delta k s)
       = (branchLines s @ map snd ys)
           [k := step_mesh (elapsedTime s) delta (branches s ! k) ((branchLines s @ map snd ys) ! k)]"
      using k by (simp add: update_branch_eq ms)
    show "list_all (spawned (Suc (generation (branches s ! k)))) ys" by (rule sp)
    show "ys \<noteq> [] \<longrightarrow> completes delta (branches s ! k)
                       \<and> generation (branches s ! k) < MAX_GENERATION"
      using True by simp
    show "length (branches (update_branch rnd delta k s)) \<le> max MAX_BRANCHES (length (branches s))"
      using k ln by (simp add: update_branch_eq)
    show "elapsedTime (update_branch rnd delta k s) = elapsedTime s"
      using k by (simp add: update_branch_eq et)
    show "spawnLog (update_branch rnd delta k s)
           = (if completes delta (branches s ! k) then k # spawnLog s else spawnLog s)"
      using k c by (simp add: update_branch_eq lg)
  qed
next
  case False
  then have idle: "\<not> completes delta (branches s ! k) \<or> MAX_GENERATION \<le> generation (branches s ! k)"
    by auto
  note si = spawn_state_idle[OF idle, of rnd]
  show ?thesis
  proof (rule that[of "[]"])
    show "branches (update_branch rnd delta k s)
       = (branches s)[k := step_branch delta (branches s ! k)] @ map fst []"
      using k by (simp add: update_branch_eq si)
    show "branchLines (update_branch rnd delta k s)
       = (branchLines s @ map snd [])
           [k := step_mesh (elapsedTime s) delta (branches s ! k) ((branchLines s @ map snd []) ! k)]"
      using k by (simp add: update_branch_eq si)
    show "list_all (spawned (Suc (generation (branches s ! k)))) []" by simp
    show "[] \<noteq> [] \<longrightarrow> completes delta (branches s ! k)
                       \<and> generation (branches s ! k) < MAX_GENERATION"
      by simp
    show "length (branches (update_branch rnd delta k s)) \<le> max MAX_BRANCHES (length (branches s))"
      using k by (simp add: update_branch_eq si)
    show "elapsedTime (update_branch rnd delta k s) = elapsedTime s"
      using k by (simp add: update_branch_eq si)
    show "spawnLog (update_branch rnd delta k s)
           = (if completes delta (branches s ! k) then k # spawnLog s else spawnLog s)"
      using k by (simp add: update_branch_eq si)
  qed
qed

lemma spawnedD:
  assumes "list_all (spawned g) ys" "i < length ys"
  shows "\<exists>st d. map fst ys ! i = new_branch st d g \<and> map snd ys ! i = new_mesh st d g"
  using assms by (auto simp: list_all_length spawned_def)

lemma fold_update_branch_Suc:
  "fold (update_branch rnd delta) [0..<Suc k] s
     = update_branch rnd delta k (fold (update_branch rnd delta) [0..<k] s)"
  by simp

lemma fold_update_branches:
  fixes s :: network_state and delta :: real
  defines "bs \<equiv> branches s"
  defines "n \<equiv> length (branches s)"
  shows "k \<le> n \<Longrightarrow>
     n \<le> length (branches (fold (update_branch rnd delta) [0..<k] s))
     \<and> length (branches (fold (update_branch rnd delta) [0..<k] s)) \<le> max MAX_BRANCHES n
     \<and> (\<forall>i<k. branches (fold (update_branch rnd delta) [0..<k] s) ! i = step_branch delta (bs ! i))
     \<and> (\<forall>i. k \<le> i \<and> i < n \<longrightarrow> branches (fold (update_branch rnd delta) [0..<k] s) ! i = bs ! i)
     \<and> (\<forall>i. n \<le> i \<and> i < length (branches (fold (update_branch rnd delta) [0..<k] s)) \<longrightarrow>
            (\<exists>j<k. completes delta (bs ! j) \<and> generation (bs ! j) < MAX_GENERATION
                 \<and> (\<exists>st d. branches (fold (update_branch rnd delta) [0..<k] s) ! i
                              = new_branch st d (Suc (generation (bs ! j))))))
     \<and> elapsedTime (fold (update_branch rnd delta) [0..<k] s) = elapsedTime s
     \<and> spawnLog (fold (update_branch rnd delta) [0..<k] s)
         = rev (filter (\<lambda>j. completes delta (bs ! j)) [0..<k]) @ spawnLog s"
proof (induction k)
  case 0
  then show ?case by (simp add: n_def bs_def)
next
  case (Suc k)
  let ?sk = "fold (update_branch rnd delta) [0..<k] s"
  let ?s' = "update_branch rnd delta k ?sk"
  from Suc.prems have kn: "k < n" by simp
  from Suc.IH kn have
    IH1: "n \<le> length (branches ?sk)" and
    IH2: "length (branches ?sk) \<le> max MAX_BRANCHES n" and
    IH3: "\<forall>i<k. branches ?sk ! i = step_branch delta (bs ! i)" and
    IH4: "\<forall>i. k \<le> i \<and> i < n \<longrightarrow> branches ?sk ! i = bs ! i" and
    IH5: "\<forall>i. n \<le> i \<and> i < length (branches ?sk) \<longrightarrow>
            (\<exists>j<k. completes delta (bs ! j) \<and> generation (bs ! j) < MAX_GENERATION
                 \<and> (\<exists>st d. branches ?sk ! i = new_branch st d (Suc (generation (bs ! j)))))" and
    IH6: "elapsedTime ?sk = elapsedTime s" and
    IH7: "spawnLog ?sk = rev (filter (\<lambda>j. completes delta (bs ! j)) [0..<k]) @ spawnLog s"
    by simp_all
  have klen: "k < length (branches ?sk)" using kn IH1 by simp
  have bk: "branches ?sk ! k = bs ! k" using IH4 kn by simp
  obtain ys where
    B: "branches ?s' = (branches ?sk)[k := step_branch delta (bs ! k)] @ map fst ys"
    and "branchLines ?s' = (branchLines ?sk @ map snd ys)
           [k := step_mesh (elapsedTime ?sk) delta (bs ! k) ((branchLines ?sk @ map snd ys) ! k)]"
    and SP: "list_all (spawned (Suc (generation (bs ! k)))) ys"
    and NE: "ys \<noteq> [] \<longrightarrow> completes delta (bs ! k) \<and> generation (bs ! k) < MAX_GENERATION"
    and LN: "length (branches ?s') \<le> max MAX_BRANCHES (length (branches ?sk))"
    and ET: "elapsedTime ?s' = elapsedTime ?sk"
    and LG: "spawnLog ?s' = (if completes delta (bs ! k) then k # spawnLog ?sk else spawnLog ?sk)"
    using update_branch_lists[OF klen, of rnd delta] unfolding bk by metis
  have len': "length (branches ?s') = length (branches ?sk) + length ys"
    by (simp add: B)
  have c1: "n \<le> length (branches ?s')" using IH1 len' by simp
  have c2: "length (branches ?s') \<le> max MAX_BRANCHES n" using LN IH2 by simp
  have c3: "branches ?s' ! i = step_branch delta (bs ! i)" if "i < Suc k" for i
  proof (cases "i = k")
    case True
    then show ?thesis using klen by (simp add: B nth_append)
  next
    case False
    with that have "i < k" by simp
    with IH3 klen False show ?thesis by (simp add: B nth_append)
  qed
  have c4: "branches ?s' ! i = bs ! i" if "Suc k \<le> i \<and> i < n" for i
    using that IH4 IH1 by (simp add: B nth_append)
  have c5: "\<exists>j<Suc k. completes delta (bs ! j) \<and> generation (bs ! j) < MAX_GENERATION
                 \<and> (\<exists>st d. branches ?s' ! i = new_branch st d (Suc (generation (bs ! j))))"
    if "n \<le> i \<and> i < length (branches ?s')" for i
  proof (cases "i < length (branches ?sk)")
    case True
    with that IH5 obtain j where "j < k" "completes delta (bs ! j)"
      "generation (bs ! j) < MAX_GENERATION"
      "\<exists>st d. branches ?sk ! i = new_branch st d (Suc (generation (bs ! j)))"
      by blast
    moreover have "branches ?s' ! i = branches ?sk ! i"
      using True that kn by (simp add: B nth_append)
    ultimately show ?thesis using less_SucI by metis
  next
    case False
    from that have "i < length (branches ?sk) + length ys" unfolding len' by simp
    with False have i': "i - length (branches ?sk) < length ys" by arith
    then have "ys \<noteq> []" by auto
    with NE have "completes delta (bs ! k)" "generation (bs ! k) < MAX_GENERATION" by simp_all
    moreover have "branches ?s' ! i = map fst ys ! (i - length (branches ?sk))"
      using False by (simp add: B nth_append)
    moreover from spawnedD[OF SP i'] have
      "\<exists>st d. map fst ys ! (i - length (branches ?sk)) = new_branch st d (Suc (generation (bs ! k)))"
      by blast
    ultimately show ?thesis by (metis lessI)
  qed
  have c6: "elapsedTime ?s' = elapsedTime s" using ET IH6 by simp
  have c7: "spawnLog ?s' = rev (filter (\<lambda>j. completes delta (bs ! j)) [0..<Suc k]) @ spawnLog s"
    using LG IH7 by simp
  show ?case
    unfolding fold_update_branch_Suc
    using c1 c2 c3 c4 c5 c6 c7 by blast
qed

lemma fold_update_meshes:
  fixes s :: network_state and delta :: real
  defines "bs \<equiv> branches s"
  defines "ms \<equiv> branchLines s"
  defines "n \<equiv> length (branches s)"
  assumes al: "length (branchLines s) = length (branches s)"
  shows "k \<le> n \<Longrightarrow>
     length (branchLines (fold (update_branch rnd delta) [0..<k] s))
       = length (branches (fold (update_branch rnd delta) [0..<k] s))
     \<and> (\<forall>i<k. branchLines (fold (update_branch rnd delta) [0..<k] s) ! i
                 = step_mesh (elapsedTime s) delta (bs ! i) (ms ! i))
     \<and> (\<forall>i. k \<le> i \<and> i < n \<longrightarrow> branchLines (fold (update_branch rnd delta) [0..<k] s) ! i = ms ! i)
     \<and> (\<forall>i. n \<le> i \<and> i < length (branches (fold (update_branch rnd delta) [0..<k] s)) \<longrightarrow>
            (\<exists>st d g. branches (fold (update_branch rnd delta) [0..<k] s) ! i = new_branch st d g
                     \<and> branchLines (fold (update_branch rnd delta) [0..<k] s) ! i = new_mesh st d g))"
proof (induction k)
  case 0
  then show ?case using al by (auto simp: n_def bs_def ms_def)
next
  case (Suc k)
  let ?sk = "fold (update_branch rnd delta) [0..<k] s"
  let ?s' = "update_branch rnd delta k ?sk"
  from Suc.prems have kn: "k < n" and kn': "k \<le> length (branches s)" by (simp_all add: n_def)
  from Suc.IH kn have
    IH1: "length (branchLines ?sk) = length (branches ?sk)" and
    IH2: "\<forall>i<k. branchLines ?sk ! i = step_mesh (elapsedTime s) delta (bs ! i) (ms ! i)" and
    IH3: "\<forall>i. k \<le> i \<and> i < n \<longrightarrow> branchLines ?sk ! i = ms ! i" and
    IH4: "\<forall>i. n \<le> i \<and> i < length (branches ?sk) \<longrightarrow>
            (\<exists>st d g. branches ?sk ! i = new_branch st d g \<and> branchLines ?sk ! i = new_mesh st d g)"
    by simp_all
  note B = fold_update_branches[OF kn', of rnd delta]
  from B have B1: "n \<le> length (branches ?sk)"
    and B4: "\<forall>i. k \<le> i \<and> i < n \<longrightarrow> branches ?sk ! i = bs ! i"
    and B6: "elapsedTime ?sk = elapsedTime s"
    by (simp_all add: n_def bs_def)
  have klen: "k < length (branches ?sk)" using kn B1 by simp
  have bk: "branches ?sk ! k = bs ! k" using B4 kn by simp
  have mk: "branchLines ?sk ! k = ms ! k" using IH3 kn by simp
  obtain ys where
    BR: "branches ?s' = (branches ?sk)[k := step_branch delta (bs ! k)] @ map fst ys"
    and M0: "branchLines ?s' = (branchLines ?sk @ map snd ys)
           [k := step_mesh (elapsedTime s) delta (bs ! k) ((branchLines ?sk @ map snd ys) ! k)]"
    and SP: "list_all (spawned (Suc (generation (bs ! k)))) ys"
    and "ys \<noteq> [] \<longrightarrow> completes delta (bs ! k) \<and> generation (bs ! k) < MAX_GENERATION"
    and "length (branches ?s') \<le> max MAX_BRANCHES (length (branches ?sk))"
    and "elapsedTime ?s' = elapsedTime ?sk"
    and "spawnLog ?s' = (if completes delta (bs ! k) then k # spawnLog ?sk else spawnLog ?sk)"
    using update_branch_lists[OF klen, of rnd delta] unfolding bk B6 by metis
  have M: "branchLines ?s'
             = (branchLines ?sk)[k := step_mesh (elapsedTime s) delta (bs ! k) (ms ! k)] @ map snd ys"
    using klen IH1 by (simp add: M0 nth_append list_update_append1 mk)
  have c1: "length (branchLines ?s') = length (branches ?s')"
    using IH1 by (simp add: M BR)
  have c2: "branchLines ?s' ! i = step_mesh (elapsedTime s) delta (bs ! i) (ms ! i)" if "i < Suc k" for i
  proof (cases "i = k")
    case True
    then show ?thesis using klen IH1 by (simp add: M nth_append)
  next
    case False
    with that have "i < k" by simp
    with IH2 klen IH1 False show ?thesis by (simp add: M nth_append)
  qed
  have c3: "branchLines ?s' ! i = ms ! i" if "Suc k \<le> i \<and> i < n" for i
    using that IH3 IH1 B1 by (simp add: M nth_append)
  have c4: "\<exists>st d g. branches ?s' ! i = new_branch st d g \<and> branchLines ?s' ! i = new_mesh st d g"
    if "n \<le> i \<and> i < length (branches ?s')" for i
  proof (cases "i < length (branches ?sk)")
    case True
    moreover have "branches ?s' ! i = branches ?sk ! i" "branchLines ?s' ! i = branchLines ?sk ! i"
      using True that kn IH1 by (simp_all add: BR M nth_append)
    ultimately show ?thesis using that IH4 by simp
  next
    case False
    from that have "i < length (branches ?sk) + length ys" by (simp add: BR)
    with False have i': "i - length (branches ?sk) < length ys" by arith
    have "branches ?s' ! i = map fst ys ! (i - length (branches ?sk))"
      "branchLines ?s' ! i = map snd ys ! (i - length (branches ?sk))"
      using False IH1 by (simp_all add: BR M nth_append)
    with spawnedD[OF SP i'] show ?thesis by metis
  qed
  show ?case
    unfolding fold_update_branch_Suc
    using c1 c2 c3 c4 by blast
qed

lemma fold_appends:
  assumes "\<And>x t. appends g t (f x t)"
  shows "appends g s (fold f xs s)"
proof (induction xs arbitrary: s)
  case Nil
  show ?case by (simp add: appends_refl)
next
  case (Cons x xs)
  show ?case
    unfolding fold_simps by (rule appends_trans[OF assms Cons.IH])
qed

lemma appends_seed_branch: "appends 0 s (seed_branch rnd p num i s)"
  unfolding seed_branch_def Let_def
  by (rule appends_trans[OF appends_randPos appends_createBranch])

lemma appends_seed_point: "appends 0 s (seed_point rnd p s)"
  unfolding seed_point_def Let_def
  by (rule appends_trans[OF appends_randPos fold_appends]) (rule appends_seed_branch)

lemma appends_setupScene: "appends 0 s (setupScene rnd s)"
  unfolding setupScene_def by (rule fold_appends) (rule appends_seed_point)

lemma update_network_branches:
  fixes s :: network_state and delta :: real and rnd :: "nat \<Rightarrow> real"
  defines "s' \<equiv> update_network rnd delta s"
  shows "length (branches s) \<le> length (branches s')"
    and "length (branches s') \<le> max MAX_BRANCHES (length (branches s))"
    and "i < length (branches s) \<Longrightarrow> branches s' ! i = step_branch delta (branches s ! i)"
    and "length (branches s) \<le> i \<Longrightarrow> i < length (branches s') \<Longrightarrow>
           \<exists>j<length (branches s). completes delta (branches s ! j)
               \<and> generation (branches s ! j) < MAX_GENERATION
               \<and> (\<exists>st d. branches s' ! i = new_branch st d (Suc (generation (branches s ! j))))"
    and "elapsedTime s' = elapsedTime s + delta"
    and "spawnLog s' = rev (filter (\<lambda>j. completes delta (branches s ! j)) [0..<length (branches s)])
                         @ spawnLog s"
proof -
  let ?s0 = "s\<lparr>elapsedTime := elapsedTime s + delta\<rparr>"
  have s': "s' = fold (update_branch rnd delta) [0..<length (branches ?s0)] ?s0"
    by (simp add: s'_def update_network_def updateBranches_def)
  note F = fold_update_branches[of "length (branches ?s0)" ?s0 rnd delta, folded s']
  show "length (branches s) \<le> length (branches s')"
    and "length (branches s') \<le> max MAX_BRANCHES (length (branches s))"
    and "elapsedTime s' = elapsedTime s + delta"
    and "spawnLog s' = rev (filter (\<lambda>j. completes delta (branches s ! j)) [0..<length (branches s)])
                         @ spawnLog s"
    using F by simp_all
  show "i < length (branches s) \<Longrightarrow> branches s' ! i = step_branch delta (branches s ! i)"
    using F by simp
  show "length (branches s) \<le> i \<Longrightarrow> i < length (branches s') \<Longrightarrow>
           \<exists>j<length (branches s). completes delta (branches s ! j)
               \<and> generation (branches s ! j) < MAX_GENERATION
               \<and> (\<exists>st d. branches s' ! i = new_branch st d (Suc (generation (branches s ! j))))"
    using F by simp
qed

lemma update_network_meshes:
  fixes s :: network_state and delta :: real and rnd :: "nat \<Rightarrow> real"
  defines "s' \<equiv> update_network rnd delta s"
  assumes al: "length (branchLines s) = length (branches s)"
  shows "length (branchLines s') = length (branches s')"
    and "i < length (branches s) \<Longrightarrow>
           branchLines s' ! i
             = step_mesh (elapsedTime s + delta) delta (branches s ! i) (branchLines s ! i)"
    and "length (branches s) \<le> i \<Longrightarrow> i < length (branches s') \<Longrightarrow>
           \<exists>st d g. branches s' ! i = new_branch st d g \<and> branchLines s' ! i = new_mesh st d g"
proof -
  let ?s0 = "s\<lparr>elapsedTime := elapsedTime s + delta\<rparr>"
  have s': "s' = fold (update_branch rnd delta) [0..<length (branches ?s0)] ?s0"
    by (simp add: s'_def update_network_def updateBranches_def)
  have al0: "length (branchLines ?s0) = length (branches ?s0)" using al by simp
  note F = fold_update_meshes[OF al0, of "length (branches ?s0)" rnd delta, folded s']
  show "length (branchLines s') = length (branches s')"
    using F by simp
  show "i < length (branches s) \<Longrightarrow>
           branchLines s' ! i
             = step_mesh (elapsedTime s + delta) delta (branches s ! i) (branchLines s ! i)"
    using F by simp
  show "length (branches s) \<le> i \<Longrightarrow> i < length (branches s') \<Longrightarrow>
           \<exists>st d g. branches s' ! i = new_branch st d g \<and> branchLines s' ! i = new_mesh st d g"
    using F by simp
qed

lemma appends_nth:
  assumes "appends g s s'" "length (branches s) \<le> i" "i < length (branches s')"
  shows "\<exists>st d. branches s' ! i = new_branch st d g
            \<and> branchLines s' ! (i - length (branches s) + length (branchLines s)) = new_mesh st d g"
proof -
  from assms(1) obtain ys where ys: "branches s' = branches s @ map fst ys"
    "branchLines s' = branchLines s @ map snd ys" "list_all (spawned g) ys"
    unfolding appends_def by blast
  from assms(3) have "i < length (branches s) + length ys" by (simp add: ys)
  with assms(2) have i': "i - length (branches s) < length ys" by arith
  have "branches s' ! i = map fst ys ! (i - length (branches s))"
    using assms(2) by (simp add: ys nth_append)
  moreover have "branchLines s' ! (i - length (branches s) + length (branchLines s))
                   = map snd ys ! (i - length (branches s))"
    by (simp add: ys nth_append)
  ultimately show ?thesis using spawnedD[OF ys(3) i'] by metis
qed

lemma appends_prefix:
  assumes "appends g s s'"
  shows "length (branches s) \<le> length (branches s')"
    and "take (length (branches s)) (branches s') = branches s"
    and "i < length (branches s) \<Longrightarrow> branches s' ! i = branches s ! i"
    and "i < length (branchLines s) \<Longrightarrow> branchLines s' ! i = branchLines s ! i"
    and "length (branchLines s) = length (branches s)
           \<Longrightarrow> length (branchLines s') = length (branches s')"
    and "length (branches s') \<le> max MAX_BRANCHES (length (branches s))"
    and "spawnLog s' = spawnLog s"
proof -
  from assms obtain ys where ys: "branches s' = branches s @ map fst ys"
    "branchLines s' = branchLines s @ map snd ys"
    unfolding appends_def by blast
  show "length (branches s) \<le> length (branches s')"
    and "take (length (branches s)) (branches s') = branches s"
    and "i < length (branches s) \<Longrightarrow> branches s' ! i = branches s ! i"
    and "i < length (branchLines s) \<Longrightarrow> branchLines s' ! i = branchLines s ! i"
    and "length (branchLines s) = length (branches s)
           \<Longrightarrow> length (branchLines s') = length (branches s')"
    by (simp_all add: ys nth_append)
  show "length (branches s') \<le> max MAX_BRANCHES (length (branches s))"
    and "spawnLog s' = spawnLog s"
    using assms by (simp_all add: appends_def)
qed

lemma new_branch_sel [simp]:
  "start (new_branch st d g) = st" "end_pos (new_branch st d g) = st"
  "direction (new_branch st d g) = normalize d"
  "age (new_branch st d g) = 0" "generation (new_branch st d g) = g"
  "isGrowing (new_branch st d g)" "branch_length (new_branch st d g) = 0"
  "0 < targetLength (new_branch st d g)"
  "mesh_color (new_mesh st d g) = color (new_branch st d g)"
  "path (new_mesh st d g) = [st, vadd st (multiplyScalar (normalize d) 0.01)]"
  by (simp_all add: new_branch_def new_mesh_def Let_def)

lemma new_branch_target [simp]: "0 \<le> targetLength (new_branch st d g)"
  by (simp add: new_branch_def Let_def)

lemma step_branch_sel:
  "start (step_branch delta b) = start b"
  "direction (step_branch delta b) = direction b"
  "generation (step_branch delta b) = generation b"
  "targetLength (step_branch delta b) = targetLength b"
  "color (step_branch delta b) = color b"
  "age (step_branch delta b) = age b + delta"
  "isGrowing (step_branch delta b) \<longleftrightarrow> isGrowing b \<and> \<not> completes delta b"
  "branch_length (step_branch delta b) =
     (if completes delta b then targetLength b
      else if isGrowing b then branch_length b + GROWTH_SPEED * delta else branch_length b)"
  "end_pos (step_branch delta b) =
     (if isGrowing b
      then vadd (start b) (multiplyScalar (direction b) (branch_length (step_branch delta b)))
      else end_pos b)"
  by (simp_all add: step_branch_def Let_def completes_def)

lemma step_branch_frozen:
  "\<not> isGrowing b \<Longrightarrow> step_branch delta b = b\<lparr>age := age b + delta\<rparr>"
  by (simp add: step_branch_def)

lemma count_list_filter_upt:
  "count_list (filter P [0..<n]) i = (if i < n \<and> P i then 1 else 0)"
  by (induction n) auto

subsection \<open>The claims about AvatarNetworkApp\<close>

lemma setupScene_fresh:
  fixes rnd k
  defines "s' \<equiv> setupScene rnd (new_network k)"
  shows "spawnLog s' = []"
    and "length (branchLines s') = length (branches s')"
    and "length (branches s') \<le> MAX_BRANCHES"
    and "i < length (branches s') \<Longrightarrow>
           \<exists>st d. branches s' ! i = new_branch st d 0 \<and> branchLines s' ! i = new_mesh st d 0"
proof -
  have ap: "appends 0 (new_network k) s'"
    unfolding s'_def by (rule appends_setupScene)
  show "spawnLog s' = []" "length (branchLines s') = length (branches s')"
    "length (branches s') \<le> MAX_BRANCHES"
    using appends_prefix(5,6,7)[OF ap] by (simp_all add: new_network_def)
  show "i < length (branches s') \<Longrightarrow>
           \<exists>st d. branches s' ! i = new_branch st d 0 \<and> branchLines s' ! i = new_mesh st d 0"
    using appends_nth[OF ap, of i] by (simp add: new_network_def)
qed

lemma growth_inv_kept:
  "growth_inv (setupScene rnd (new_network k))
   \<and> (growth_inv s \<longrightarrow> growth_inv (update_network rnd delta s))
   \<and> (growth_inv s \<and> 0 \<le> delta \<longrightarrow>
        (\<forall>i<length (branches s).
           (isGrowing (branches s ! i) \<longrightarrow>
              branch_length (branches s ! i)
                \<le> branch_length (branches (update_network rnd delta s) ! i))
           \<and> (isGrowing (branches s ! i)
                \<and> \<not> isGrowing (branches (update_network rnd delta s) ! i) \<longrightarrow>
                  branch_length (branches (update_network rnd delta s) ! i)
                    = targetLength (branches (update_network rnd delta s) ! i)
                  \<and> count_list (spawnLog s) i = 0
                  \<and> count_list (spawnLog (update_network rnd delta s)) i = 1)))"
proof (intro conjI impI allI)
  let ?s0 = "setupScene rnd (new_network k)"
  note fresh = setupScene_fresh[where rnd=rnd and k=k]
  have "branch_length (branches ?s0 ! i) \<le> targetLength (branches ?s0 ! i)
        \<and> isGrowing (branches ?s0 ! i)" if "i < length (branches ?s0)" for i
  proof -
    from fresh(4)[OF that] obtain st d where "branches ?s0 ! i = new_branch st d 0" by blast
    then show ?thesis by simp
  qed
  then show "growth_inv ?s0"
    by (simp add: growth_inv_def fresh(1))
next
  let ?s' = "update_network rnd delta s"
  let ?n = "length (branches s)"
  let ?C = "\<lambda>j. completes delta (branches s ! j)"
  assume inv: "growth_inv s"
  note U = update_network_branches[where s=s and rnd=rnd and delta=delta]
  have log: "spawnLog ?s' = rev (filter ?C [0..<?n]) @ spawnLog s" by (rule U(6))
  have cnt: "count_list (spawnLog ?s') i = (if i < ?n \<and> ?C i then 1 else 0) + count_list (spawnLog s) i"
    for i
    by (simp add: log count_list_filter_upt)
  from inv have old_log: "\<forall>j\<in>set (spawnLog s). j < ?n" by (simp add: growth_inv_def)
  have old: "i < ?n \<Longrightarrow> branch_length (branches s ! i) \<le> targetLength (branches s ! i)
        \<and> (\<not> isGrowing (branches s ! i) \<longrightarrow>
              branch_length (branches s ! i) = targetLength (branches s ! i))
        \<and> count_list (spawnLog s) i = (if isGrowing (branches s ! i) then 0 else 1)" for i
    using inv by (simp add: growth_inv_def)
  have "branch_length (branches ?s' ! i) \<le> targetLength (branches ?s' ! i)
        \<and> (\<not> isGrowing (branches ?s' ! i) \<longrightarrow>
              branch_length (branches ?s' ! i) = targetLength (branches ?s' ! i))
        \<and> count_list (spawnLog ?s') i = (if isGrowing (branches ?s' ! i) then 0 else 1)"
    if i: "i < length (branches ?s')" for i
  proof (cases "i < ?n")
    case True
    have b: "branches ?s' ! i = step_branch delta (branches s ! i)" by (rule U(3)[OF True])
    show ?thesis
      unfolding b cnt using old[OF True] True
      by (auto simp: step_branch_sel completes_def)
  next
    case False
    then have ge: "?n \<le> i" by simp
    from U(4)[OF ge i] obtain st d g where b: "branches ?s' ! i = new_branch st d g" by blast
    have "i \<notin> set (spawnLog s)" using old_log False by auto
    then have "count_list (spawnLog s) i = 0" by (simp add: count_list_0_iff)
    then show ?thesis
      unfolding b cnt using False by simp
  qed
  moreover have "\<forall>j\<in>set (spawnLog ?s'). j < length (branches ?s')"
    using old_log U(1) by (auto simp: log)
  ultimately show "growth_inv ?s'"
    by (simp add: growth_inv_def)
next
  fix i
  let ?s' = "update_network rnd delta s"
  assume a: "growth_inv s \<and> 0 \<le> delta" and i: "i < length (branches s)"
    and g: "isGrowing (branches s ! i)"
  have b: "branches ?s' ! i = step_branch delta (branches s ! i)"
    by (rule update_network_branches(3)[OF i])
  from a i have old: "branch_length (branches s ! i) \<le> targetLength (branches s ! i)"
    by (simp add: growth_inv_def)
  have "0 \<le> GROWTH_SPEED * delta" using a by (simp add: GROWTH_SPEED_def)
  then show "branch_length (branches s ! i) \<le> branch_length (branches ?s' ! i)"
    unfolding b using old g by (simp add: step_branch_sel)
next
  fix i
  let ?s' = "update_network rnd delta s"
  let ?n = "length (branches s)"
  assume a: "growth_inv s \<and> 0 \<le> delta" and i: "i < length (branches s)"
    and t: "isGrowing (branches s ! i) \<and> \<not> isGrowing (branches ?s' ! i)"
  have b: "branches ?s' ! i = step_branch delta (branches s ! i)"
    by (rule update_network_branches(3)[OF i])
  from t have c: "completes delta (branches s ! i)"
    unfolding b by (simp add: step_branch_sel)
  from a i t have z: "count_list (spawnLog s) i = 0" by (simp add: growth_inv_def)
  have log: "spawnLog ?s' = rev (filter (\<lambda>j. completes delta (branches s ! j)) [0..<?n]) @ spawnLog s"
    by (rule update_network_branches(6))
  show "branch_length (branches ?s' ! i) = targetLength (branches ?s' ! i)"
    unfolding b using c by (simp add: step_branch_sel)
  show "count_list (spawnLog s) i = 0" by (rule z)
  show "count_list (spawnLog ?s') i = 1"
    using c i z by (simp add: log count_list_filter_upt)
qed

lemma createBranch_count:
  "length (branches s) < MAX_BRANCHES \<Longrightarrow>
     length (branches (createBranch st d g s)) = Suc (length (branches s))"
  "randPos (createBranch st d g s) = randPos s"
  by (simp_all add: createBranch_def)

lemma spawn_loop_count:
  "length (branches s) + n \<le> MAX_BRANCHES \<Longrightarrow>
     length (branches (spawn_loop rnd b n s)) = length (branches s) + n
     \<and> randPos (spawn_loop rnd b n s) = randPos s + n"
proof (induction n arbitrary: s)
  case 0
  show ?case by simp
next
  case (Suc n)
  from Suc.prems have lt: "length (branches (s\<lparr>randPos := Suc (randPos s)\<rparr>)) < MAX_BRANCHES"
    by simp
  have next_le: "length (branches (createBranch st d g (s\<lparr>randPos := Suc (randPos s)\<rparr>))) + n
                   \<le> MAX_BRANCHES" for st d g
    using Suc.prems by (simp add: createBranch_count(1)[OF lt])
  show ?case
    unfolding spawn_loop.simps Let_def
    using Suc.IH[OF next_le] by (simp add: createBranch_count(1)[OF lt] createBranch_count(2))
qed

lemma branchOut_count:
  assumes "generation b < MAX_GENERATION" and "rnd (randPos s) \<le> BRANCH_PROBABILITY"
    and "length (branches s) + nat (2 + \<lfloor>rnd (Suc (randPos s)) * 4\<rfloor>) \<le> MAX_BRANCHES"
  shows "length (branches (branchOut rnd b s))
           = length (branches s) + nat (2 + \<lfloor>rnd (Suc (randPos s)) * 4\<rfloor>)"
    and "randPos (branchOut rnd b s) = randPos s + 2 + nat (2 + \<lfloor>rnd (Suc (randPos s)) * 4\<rfloor>)"
  using assms
    spawn_loop_count[of "s\<lparr>randPos := randPos s + 2\<rparr>" "nat (2 + \<lfloor>rnd (Suc (randPos s)) * 4\<rfloor>)" rnd b]
  by (simp_all add: branchOut_def Let_def)

lemma network_example_eq:
  "network_example =
     \<lparr>branches = [new_branch \<lparr>X = 0, Y = 0, Z = 0\<rparr> \<lparr>X = 1, Y = 0, Z = 0\<rparr> 0],
      branchLines = [new_mesh \<lparr>X = 0, Y = 0, Z = 0\<rparr> \<lparr>X = 1, Y = 0, Z = 0\<rparr> 0],
      elapsedTime = 0, randPos = 0, spawnLog = []\<rparr>"
  by (simp add: network_example_def createBranch_def new_network_def MAX_BRANCHES_def)

lemma example_target: "targetLength (new_branch st d 0) = 6"
  by (simp add: new_branch_def Let_def BRANCH_LENGTH_def)

lemma example_completes:
  "completes (1 / 2) (new_branch st d 0)"
  by (simp add: completes_def example_target GROWTH_SPEED_def)

text \<open>
  Claim C6.  In every state that the constructor and \<open>update\<close> produce, the length of a
  branch is at most its target length, a branch that has stopped growing has exactly its
  target length, and \<^verbatim>\<open>branchOut\<close> has been called for a branch once if it has
  stopped growing and never if it is still growing.  Across an \<open>update\<close> with
  \<open>delta \<ge> 0\<close> the length of a growing branch does not decrease, and a branch that stops
  growing in that update has its target length and its one call of \<^verbatim>\<open>branchOut\<close> in
  that update.  In any state an \<open>update\<close> gives a growing branch the length
  \<open>length + GROWTH_SPEED * delta\<close>, or the target length when that sum reaches or passes
  the target, and the branch stops growing exactly in that case; a stopped branch keeps its
  length.  \<open>update\<close> runs the callback once for each index, and the callback for a branch
  calls \<^verbatim>\<open>branchOut\<close> once, on the stopped branch, exactly when the branch stops in
  that call, and not at all otherwise.
\<close>

theorem growth_monotone:
  "growth_inv (setupScene rnd (new_network k))
   \<and> (growth_inv s \<longrightarrow> growth_inv (update_network rnd delta s))
   \<and> (growth_inv s \<and> 0 \<le> delta \<longrightarrow>
        (\<forall>i<length (branches s).
           (isGrowing (branches s ! i) \<longrightarrow>
              branch_length (branches s ! i)
                \<le> branch_length (branches (update_network rnd delta s) ! i))
           \<and> (isGrowing (branches s ! i)
                \<and> \<not> isGrowing (branches (update_network rnd delta s) ! i) \<longrightarrow>
                  branch_length (branches (update_network rnd delta s) ! i)
                    = targetLength (branches (update_network rnd delta s) ! i)
                  \<and> count_list (spawnLog s) i = 0
                  \<and> count_list (spawnLog (update_network rnd delta s)) i = 1)))
   \<and> (\<forall>i<length (branches s).
         branch_length (branches (update_network rnd delta s) ! i)
           = (if isGrowing (branches s ! i)
              then (if targetLength (branches s ! i)
                         \<le> branch_length (branches s ! i) + GROWTH_SPEED * delta
                    then targetLength (branches s ! i)
                    else branch_length (branches s ! i) + GROWTH_SPEED * delta)
              else branch_length (branches s ! i))
         \<and> (isGrowing (branches (update_network rnd delta s) ! i) \<longleftrightarrow>
               isGrowing (branches s ! i)
               \<and> \<not> targetLength (branches s ! i)
                     \<le> branch_length (branches s ! i) + GROWTH_SPEED * delta)
         \<and> targetLength (branches (update_network rnd delta s) ! i) = targetLength (branches s ! i))
   \<and> update_network rnd delta s
       = fold (update_branch rnd delta) [0..<length (branches s)]
           (s\<lparr>elapsedTime := elapsedTime s + delta\<rparr>)
   \<and> (\<forall>j<length (branches s).
         update_branch rnd delta j s =
           (let b = branches s ! j;
                stopped = b\<lparr>branch_length := targetLength b, isGrowing := False\<rparr>;
                sx = (if isGrowing b \<and> targetLength b \<le> branch_length b + GROWTH_SPEED * delta
                      then branchOut rnd stopped
                             (s\<lparr>branches := (branches s)[j := stopped],
                                spawnLog := j # spawnLog s\<rparr>)
                      else s)
            in sx\<lparr>branches := (branches sx)[j := step_branch delta b],
                  branchLines := (branchLines sx)
                     [j := step_mesh (elapsedTime s) delta b (branchLines sx ! j)]\<rparr>))"
proof -
  have law: "branch_length (branches (update_network rnd delta s) ! i)
           = (if isGrowing (branches s ! i)
              then (if targetLength (branches s ! i)
                         \<le> branch_length (branches s ! i) + GROWTH_SPEED * delta
                    then targetLength (branches s ! i)
                    else branch_length (branches s ! i) + GROWTH_SPEED * delta)
              else branch_length (branches s ! i))
         \<and> (isGrowing (branches (update_network rnd delta s) ! i) \<longleftrightarrow>
               isGrowing (branches s ! i)
               \<and> \<not> targetLength (branches s ! i)
                     \<le> branch_length (branches s ! i) + GROWTH_SPEED * delta)
         \<and> targetLength (branches (update_network rnd delta s) ! i) = targetLength (branches s ! i)"
    if "i < length (branches s)" for i
    unfolding update_network_branches(3)[OF that]
    by (simp add: step_branch_sel completes_def)
  have run: "update_network rnd delta s
       = fold (update_branch rnd delta) [0..<length (branches s)]
           (s\<lparr>elapsedTime := elapsedTime s + delta\<rparr>)"
    by (simp add: update_network_def updateBranches_def)
  have call: "update_branch rnd delta j s =
           (let b = branches s ! j;
                stopped = b\<lparr>branch_length := targetLength b, isGrowing := False\<rparr>;
                sx = (if isGrowing b \<and> targetLength b \<le> branch_length b + GROWTH_SPEED * delta
                      then branchOut rnd stopped
                             (s\<lparr>branches := (branches s)[j := stopped],
                                spawnLog := j # spawnLog s\<rparr>)
                      else s)
            in sx\<lparr>branches := (branches sx)[j := step_branch delta b],
                  branchLines := (branchLines sx)
                     [j := step_mesh (elapsedTime s) delta b (branchLines sx ! j)]\<rparr>)"
    if "j < length (branches s)" for j
    unfolding update_branch_eq[OF that]
    by (simp add: spawn_state_def completes_def finished_def Let_def)
  show ?thesis
    using growth_inv_kept[of rnd k s delta] law run call by blast
qed

text \<open>
  One seed branch from the origin along the x-axis, target length 6, growth 12 per second,
  every draw 0.  After an update of 0.5 s its length is 6, it has stopped growing,
  \<^verbatim>\<open>branchOut\<close> has been called for it once, and the call has taken four draws and
  appended two branches.  After an update of 0.25 s the length is 3 and after one of 0 s
  it is 0, and the branch still grows; after an update of 1 s the length is the target 6.
\<close>

lemma example_stopped:
  "generation ((new_branch st d 0)\<lparr>branch_length := targetLength (new_branch st d 0),
                                    isGrowing := False\<rparr>) < MAX_GENERATION"
  by (simp add: MAX_GENERATION_def)

theorem growth_monotone_witness:
  "growth_inv network_example
   \<and> (0::real) \<le> 1 / 2
   \<and> isGrowing (branches network_example ! 0)
   \<and> \<not> isGrowing (branches (update_network (\<lambda>_. 0) (1 / 2) network_example) ! 0)
   \<and> growth_inv (update_network (\<lambda>_. 0) (1 / 2) network_example)
   \<and> branch_length (branches (update_network (\<lambda>_. 0) (1 / 2) network_example) ! 0) = 6
   \<and> count_list (spawnLog (update_network (\<lambda>_. 0) (1 / 2) network_example)) 0 = 1
   \<and> length (branches (update_network (\<lambda>_. 0) (1 / 2) network_example)) = 3
   \<and> randPos (update_network (\<lambda>_. 0) (1 / 2) network_example) = 4
   \<and> branch_length (branches (update_network (\<lambda>_. 0) (1 / 4) network_example) ! 0) = 3
   \<and> isGrowing (branches (update_network (\<lambda>_. 0) (1 / 4) network_example) ! 0)
   \<and> branch_length (branches (update_network (\<lambda>_. 0) 0 network_example) ! 0) = 0
   \<and> isGrowing (branches (update_network (\<lambda>_. 0) 0 network_example) ! 0)
   \<and> branch_length (branches (update_network (\<lambda>_. 0) 1 network_example) ! 0) = 6
   \<and> \<not> isGrowing (branches (update_network (\<lambda>_. 0) 1 network_example) ! 0)"
proof -
  let ?r = "\<lambda>_::nat. 0::real"
  let ?b = "new_branch \<lparr>X = 0, Y = 0, Z = 0\<rparr> \<lparr>X = 1, Y = 0, Z = 0\<rparr> 0"
  let ?m = "new_mesh \<lparr>X = 0, Y = 0, Z = 0\<rparr> \<lparr>X = 1, Y = 0, Z = 0\<rparr> 0"
  let ?s0 = "\<lparr>branches = [?b], branchLines = [?m], elapsedTime = 1 / 2, randPos = 0,
              spawnLog = []\<rparr>"
  let ?stopped = "?b\<lparr>branch_length := targetLength ?b, isGrowing := False\<rparr>"
  let ?sx = "branchOut ?r ?stopped
               \<lparr>branches = [?stopped], branchLines = [?m], elapsedTime = 1 / 2, randPos = 0,
                spawnLog = [0]\<rparr>"
  have inv: "growth_inv network_example"
    by (simp add: growth_inv_def network_example_eq)
  have n: "0 < length (branches network_example)"
    and g: "isGrowing (branches network_example ! 0)"
    and l0: "branch_length (branches network_example ! 0) = 0"
    and t0: "targetLength (branches network_example ! 0) = 6"
    by (simp_all add: network_example_eq example_target)
  note T = growth_monotone[of ?r 0 network_example]
  have law: "branch_length (branches (update_network ?r d network_example) ! 0)
               = (if 6 \<le> GROWTH_SPEED * d then 6 else GROWTH_SPEED * d)
             \<and> (isGrowing (branches (update_network ?r d network_example) ! 0)
                  \<longleftrightarrow> \<not> 6 \<le> GROWTH_SPEED * d)" for d
    using T[of d, THEN conjunct2, THEN conjunct2, THEN conjunct2, THEN conjunct1] n g l0 t0
    by simp
  have half: "branch_length (branches (update_network ?r (1 / 2) network_example) ! 0) = 6"
    "\<not> isGrowing (branches (update_network ?r (1 / 2) network_example) ! 0)"
    and quarter: "branch_length (branches (update_network ?r (1 / 4) network_example) ! 0) = 3"
    "isGrowing (branches (update_network ?r (1 / 4) network_example) ! 0)"
    and zero: "branch_length (branches (update_network ?r 0 network_example) ! 0) = 0"
    "isGrowing (branches (update_network ?r 0 network_example) ! 0)"
    and one: "branch_length (branches (update_network ?r 1 network_example) ! 0) = 6"
    "\<not> isGrowing (branches (update_network ?r 1 network_example) ! 0)"
    using law[of "1 / 2"] law[of "1 / 4"] law[of 0] law[of 1]
    by (simp_all add: GROWTH_SPEED_def)
  have inv': "growth_inv (update_network ?r (1 / 2) network_example)"
    using T[of "1 / 2", THEN conjunct2, THEN conjunct1] inv by simp
  have cnt: "count_list (spawnLog (update_network ?r (1 / 2) network_example)) 0 = 1"
    using T[of "1 / 2", THEN conjunct2, THEN conjunct2, THEN conjunct1] inv n g half(2)
    by simp
  have run: "update_network ?r (1 / 2) network_example = update_branch ?r (1 / 2) 0 ?s0"
    using T[of "1 / 2", THEN conjunct2, THEN conjunct2, THEN conjunct2, THEN conjunct2,
            THEN conjunct1]
    by (simp add: network_example_eq)
  have call: "update_branch ?r (1 / 2) 0 ?s0 =
      ?sx\<lparr>branches := (branches ?sx)[0 := step_branch (1 / 2) ?b],
           branchLines := (branchLines ?sx)[0 := step_mesh (1 / 2) (1 / 2) ?b (branchLines ?sx ! 0)]\<rparr>"
    using growth_monotone[of ?r 0 ?s0 "1 / 2", THEN conjunct2, THEN conjunct2, THEN conjunct2,
            THEN conjunct2, THEN conjunct2]
    by (simp add: Let_def example_target GROWTH_SPEED_def)
  have sx: "length (branches ?sx) = 3" "randPos ?sx = 4"
    using branchOut_count[of ?stopped ?r
        "\<lparr>branches = [?stopped], branchLines = [?m], elapsedTime = 1 / 2, randPos = 0,
          spawnLog = [0]\<rparr>"] example_stopped[of "\<lparr>X = 0, Y = 0, Z = 0\<rparr>" "\<lparr>X = 1, Y = 0, Z = 0\<rparr>"]
    by (simp_all add: BRANCH_PROBABILITY_def MAX_BRANCHES_def)
  have children: "length (branches (update_network ?r (1 / 2) network_example)) = 3"
    "randPos (update_network ?r (1 / 2) network_example) = 4"
    unfolding run call using sx by simp_all
  show ?thesis
    using inv g half quarter zero one inv' cnt children by simp
qed

text \<open>
  Claim C7.  No branch has a generation above \<open>MAX_GENERATION = 25\<close>: the seeds have
  generation 0 and \<open>update\<close> keeps the bound.  \<^verbatim>\<open>branchOut\<close> does nothing for a
  branch of generation 25 or more, only takes its draw when the draw is above
  \<open>BRANCH_PROBABILITY = 0.95\<close>, and otherwise only appends branches, each of the
  generation of the parent plus one.
\<close>

theorem generation_bound:
  "generation_bounded (setupScene rnd (new_network k))
   \<and> (generation_bounded s \<longrightarrow> generation_bounded (update_network rnd delta s))
   \<and> (MAX_GENERATION \<le> generation b \<longrightarrow> branchOut rnd b s = s)
   \<and> (generation b < MAX_GENERATION \<and> BRANCH_PROBABILITY < rnd (randPos s) \<longrightarrow>
        branchOut rnd b s = s\<lparr>randPos := Suc (randPos s)\<rparr>)
   \<and> take (length (branches s)) (branches (branchOut rnd b s)) = branches s
   \<and> (\<forall>c\<in>set (drop (length (branches s)) (branches (branchOut rnd b s))).
        generation c = generation b + 1)"
proof (intro conjI impI)
  let ?s0 = "setupScene rnd (new_network k)"
  have "generation (branches ?s0 ! i) \<le> MAX_GENERATION" if "i < length (branches ?s0)" for i
  proof -
    from setupScene_fresh(4)[OF that] obtain st d where "branches ?s0 ! i = new_branch st d 0"
      by blast
    then show ?thesis by simp
  qed
  then show "generation_bounded ?s0"
    by (auto simp: generation_bounded_def in_set_conv_nth)
next
  let ?s' = "update_network rnd delta s"
  assume inv: "generation_bounded s"
  note U = update_network_branches[where s=s and rnd=rnd and delta=delta]
  have old: "generation (branches s ! i) \<le> MAX_GENERATION" if "i < length (branches s)" for i
    using inv that by (simp add: generation_bounded_def)
  have "generation (branches ?s' ! i) \<le> MAX_GENERATION" if i: "i < length (branches ?s')" for i
  proof (cases "i < length (branches s)")
    case True
    show ?thesis
      unfolding U(3)[OF True] using old[OF True] by (simp add: step_branch_sel)
  next
    case False
    then have "length (branches s) \<le> i" by simp
    from U(4)[OF this i] obtain j st d where "generation (branches s ! j) < MAX_GENERATION"
      "branches ?s' ! i = new_branch st d (Suc (generation (branches s ! j)))"
      by blast
    then show ?thesis by simp
  qed
  then show "generation_bounded ?s'"
    by (auto simp: generation_bounded_def in_set_conv_nth)
next
  assume "MAX_GENERATION \<le> generation b"
  then show "branchOut rnd b s = s" by (rule branchOut_limit)
next
  assume "generation b < MAX_GENERATION \<and> BRANCH_PROBABILITY < rnd (randPos s)"
  then show "branchOut rnd b s = s\<lparr>randPos := Suc (randPos s)\<rparr>"
    by (simp add: branchOut_def)
next
  show "take (length (branches s)) (branches (branchOut rnd b s)) = branches s"
    by (rule appends_prefix(2)[OF appends_branchOut])
next
  let ?s' = "branchOut rnd b s"
  note ap = appends_branchOut[of b s rnd]
  have "generation (branches ?s' ! i) = generation b + 1"
    if "length (branches s) \<le> i" "i < length (branches ?s')" for i
  proof -
    from appends_nth[OF ap that] obtain st d where
      "branches ?s' ! i = new_branch st d (Suc (generation b))" by blast
    then show ?thesis by simp
  qed
  then show "\<forall>c\<in>set (drop (length (branches s)) (branches ?s')). generation c = generation b + 1"
    by (auto simp: in_set_conv_nth)
qed

theorem generation_bound_witness:
  "generation_bounded network_example
   \<and> generation_bounded (update_network (\<lambda>_. 1) (1 / 2) network_example)
   \<and> MAX_GENERATION \<le> generation (new_branch \<lparr>X = 0, Y = 0, Z = 0\<rparr> \<lparr>X = 1, Y = 0, Z = 0\<rparr> 25)
   \<and> branchOut (\<lambda>_. 1) (new_branch \<lparr>X = 0, Y = 0, Z = 0\<rparr> \<lparr>X = 1, Y = 0, Z = 0\<rparr> 25) network_example
       = network_example
   \<and> generation (new_branch \<lparr>X = 0, Y = 0, Z = 0\<rparr> \<lparr>X = 1, Y = 0, Z = 0\<rparr> 0) < MAX_GENERATION
   \<and> BRANCH_PROBABILITY < 1
   \<and> branchOut (\<lambda>_. 1) (new_branch \<lparr>X = 0, Y = 0, Z = 0\<rparr> \<lparr>X = 1, Y = 0, Z = 0\<rparr> 0) network_example
       = network_example\<lparr>randPos := Suc (randPos network_example)\<rparr>"
proof -
  have inv: "generation_bounded network_example"
    by (simp add: generation_bounded_def network_example_eq)
  show ?thesis
    using inv
      generation_bound[of "\<lambda>_. 1" 0 network_example "1 / 2"
        "new_branch \<lparr>X = 0, Y = 0, Z = 0\<rparr> \<lparr>X = 1, Y = 0, Z = 0\<rparr> 25"]
      generation_bound[of "\<lambda>_. 1" 0 network_example "1 / 2"
        "new_branch \<lparr>X = 0, Y = 0, Z = 0\<rparr> \<lparr>X = 1, Y = 0, Z = 0\<rparr> 0"]
    by (simp add: MAX_GENERATION_def BRANCH_PROBABILITY_def)
qed

text \<open>
  Claim C8.  The number of branches never exceeds \<open>MAX_BRANCHES = 3000\<close>: the constructor
  stays below the cap, and \<^verbatim>\<open>createBranch\<close>, \<^verbatim>\<open>branchOut\<close> and \<open>update\<close> keep it.
  At the cap \<^verbatim>\<open>createBranch\<close> returns the state as it is (no branch, no mesh, no
  error), and \<^verbatim>\<open>branchOut\<close> leaves the branches and the meshes as they are.
\<close>

theorem population_cap:
  "length (branches (setupScene rnd (new_network k))) \<le> MAX_BRANCHES
   \<and> (length (branches s) \<le> MAX_BRANCHES \<longrightarrow>
        length (branches (createBranch st d g s)) \<le> MAX_BRANCHES
        \<and> length (branches (branchOut rnd b s)) \<le> MAX_BRANCHES
        \<and> length (branches (update_network rnd delta s)) \<le> MAX_BRANCHES)
   \<and> (MAX_BRANCHES \<le> length (branches s) \<longrightarrow>
        createBranch st d g s = s
        \<and> branches (branchOut rnd b s) = branches s
        \<and> branchLines (branchOut rnd b s) = branchLines s)"
proof (intro conjI impI)
  show "length (branches (setupScene rnd (new_network k))) \<le> MAX_BRANCHES"
    by (rule setupScene_fresh(3))
next
  assume le: "length (branches s) \<le> MAX_BRANCHES"
  show "length (branches (createBranch st d g s)) \<le> MAX_BRANCHES"
    using appends_prefix(6)[OF appends_createBranch[of g s st d]] le by simp
  show "length (branches (branchOut rnd b s)) \<le> MAX_BRANCHES"
    using appends_prefix(6)[OF appends_branchOut[of b s rnd]] le by simp
  show "length (branches (update_network rnd delta s)) \<le> MAX_BRANCHES"
    using update_network_branches(2)[where s=s and rnd=rnd and delta=delta] le by simp
next
  assume ge: "MAX_BRANCHES \<le> length (branches s)"
  show "createBranch st d g s = s" using ge by (simp add: createBranch_def)
  note ap = appends_branchOut[of b s rnd]
  from ap obtain ys where ys: "branches (branchOut rnd b s) = branches s @ map fst ys"
    "branchLines (branchOut rnd b s) = branchLines s @ map snd ys"
    unfolding appends_def by blast
  from appends_prefix(6)[OF ap] ge have "length (branches (branchOut rnd b s)) \<le> length (branches s)"
    by simp
  then have "ys = []" by (simp add: ys)
  then show "branches (branchOut rnd b s) = branches s"
    "branchLines (branchOut rnd b s) = branchLines s"
    by (simp_all add: ys)
qed

text \<open>A state with 3000 branches: a further \<^verbatim>\<open>createBranch\<close> changes nothing.\<close>

theorem population_cap_witness:
  "length (branches full_example) \<le> MAX_BRANCHES
   \<and> MAX_BRANCHES \<le> length (branches full_example)
   \<and> createBranch \<lparr>X = 0, Y = 0, Z = 0\<rparr> \<lparr>X = 0, Y = 1, Z = 0\<rparr> 1 full_example = full_example
   \<and> length (branches (update_network (\<lambda>_. 0) (1 / 2) full_example)) \<le> MAX_BRANCHES"
  using population_cap[of "\<lambda>_. 0" 0 full_example "\<lparr>X = 0, Y = 0, Z = 0\<rparr>" "\<lparr>X = 0, Y = 1, Z = 0\<rparr>" 1
      undefined "1 / 2"]
  by (simp add: full_example_def MAX_BRANCHES_def)

text \<open>
  Claim C9.  A branch that has stopped growing is changed by an \<open>update\<close> only in its age,
  which grows by \<open>delta\<close>: start, end, direction, length, target length, generation and
  colour stay, it keeps its place in the list, and it stays stopped.  In a state with as
  many meshes as branches its mesh is changed only in its opacity, the pulse
  \<open>0.7 + 0.3 sin (3 elapsedTime + age)\<close> of the new elapsed time and the new age.
\<close>

theorem frozen_branch:
  "i < length (branches s) \<and> \<not> isGrowing (branches s ! i) \<longrightarrow>
     i < length (branches (update_network rnd delta s))
     \<and> branches (update_network rnd delta s) ! i
         = (branches s ! i)\<lparr>age := age (branches s ! i) + delta\<rparr>
     \<and> (length (branchLines s) = length (branches s) \<longrightarrow>
          branchLines (update_network rnd delta s) ! i
            = (branchLines s ! i)
                \<lparr>opacity := 0.7 + sin ((elapsedTime s + delta) * 3
                                         + (age (branches s ! i) + delta)) * 0.3\<rparr>)"
proof (intro impI conjI)
  assume a: "i < length (branches s) \<and> \<not> isGrowing (branches s ! i)"
  then have i: "i < length (branches s)" and f: "\<not> isGrowing (branches s ! i)" by simp_all
  note U = update_network_branches[where s=s and rnd=rnd and delta=delta]
  show "i < length (branches (update_network rnd delta s))" using i U(1) by simp
  show "branches (update_network rnd delta s) ! i
         = (branches s ! i)\<lparr>age := age (branches s ! i) + delta\<rparr>"
    unfolding U(3)[OF i] using f by (rule step_branch_frozen)
  assume al: "length (branchLines s) = length (branches s)"
  show "branchLines (update_network rnd delta s) ! i
            = (branchLines s ! i)
                \<lparr>opacity := 0.7 + sin ((elapsedTime s + delta) * 3
                                         + (age (branches s ! i) + delta)) * 0.3\<rparr>"
    unfolding update_network_meshes(2)[OF al i] using f by (simp add: step_mesh_def)
qed

text \<open>The seed branch of the example, stopped at its target length, one frame later.\<close>

theorem frozen_branch_witness:
  "0 < length (branches frozen_example) \<and> \<not> isGrowing (branches frozen_example ! 0)
   \<and> length (branchLines frozen_example) = length (branches frozen_example)
   \<and> branches (update_network (\<lambda>_. 1 / 2) (1 / 60) frozen_example) ! 0
       = (branches frozen_example ! 0)\<lparr>age := 1 / 60\<rparr>
   \<and> branch_length (branches (update_network (\<lambda>_. 1 / 2) (1 / 60) frozen_example) ! 0) = 6"
  using frozen_branch[of 0 frozen_example "\<lambda>_. 1 / 2" "1 / 60"]
  by (simp add: frozen_example_def example_target)

lemma step_mesh_sel:
  "mesh_color (step_mesh t delta b m) = mesh_color m"
  "path (step_mesh t delta b m) =
     (if isGrowing b then [start (step_branch delta b), end_pos (step_branch delta b)]
      else path m)"
  by (simp_all add: step_mesh_def regrow_mesh_def)

lemma appends_aligned:
  assumes ap: "appends g s s'" and al: "aligned s"
  shows "aligned s'"
proof -
  from al have len: "length (branchLines s) = length (branches s)"
    and old: "\<And>i. i < length (branches s) \<Longrightarrow>
                mesh_color (branchLines s ! i) = color (branches s ! i)
                \<and> hd (path (branchLines s ! i)) = start (branches s ! i)"
    by (simp_all add: aligned_def)
  have "mesh_color (branchLines s' ! i) = color (branches s' ! i)
        \<and> hd (path (branchLines s' ! i)) = start (branches s' ! i)"
    if i: "i < length (branches s')" for i
  proof (cases "i < length (branches s)")
    case True
    then show ?thesis
      using appends_prefix(3,4)[OF ap, of i] old[OF True] len by simp
  next
    case False
    then have ge: "length (branches s) \<le> i" by simp
    from appends_nth[OF ap ge i] ge len obtain st d where
      "branches s' ! i = new_branch st d g" "branchLines s' ! i = new_mesh st d g"
      by auto
    then show ?thesis by simp
  qed
  then show ?thesis
    using appends_prefix(5)[OF ap len] by (simp add: aligned_def)
qed

text \<open>
  Claim C10.  The list of branches and the list of meshes stay aligned: they have the same
  length, and the mesh at an index has the colour of the branch at that index and a path
  that starts where the branch starts.  The constructor establishes this, and
  \<^verbatim>\<open>createBranch\<close> (which appends one branch and one mesh, or at the cap neither),
  \<^verbatim>\<open>branchOut\<close> and \<open>update\<close> keep it; after an \<open>update\<close> the mesh at the index of a
  branch that was growing follows the path from the start to the end of that branch.
\<close>

theorem index_alignment:
  "aligned (setupScene rnd (new_network k))
   \<and> (aligned s \<longrightarrow>
        aligned (createBranch st d g s)
        \<and> aligned (branchOut rnd b s)
        \<and> aligned (update_network rnd delta s)
        \<and> (\<forall>i<length (branches s). isGrowing (branches s ! i) \<longrightarrow>
              path (branchLines (update_network rnd delta s) ! i)
                = [start (branches (update_network rnd delta s) ! i),
                   end_pos (branches (update_network rnd delta s) ! i)]))
   \<and> (length (branches s) < MAX_BRANCHES \<longrightarrow>
        branches (createBranch st d g s) = branches s @ [new_branch st d g]
        \<and> branchLines (createBranch st d g s) = branchLines s @ [new_mesh st d g])
   \<and> (MAX_BRANCHES \<le> length (branches s) \<longrightarrow> createBranch st d g s = s)"
proof (intro conjI impI allI)
  have "aligned (new_network k)" by (simp add: aligned_def new_network_def)
  then show "aligned (setupScene rnd (new_network k))"
    by (rule appends_aligned[OF appends_setupScene])
next
  assume "aligned s"
  then show "aligned (createBranch st d g s)" by (rule appends_aligned[OF appends_createBranch])
next
  assume "aligned s"
  then show "aligned (branchOut rnd b s)" by (rule appends_aligned[OF appends_branchOut])
next
  let ?s' = "update_network rnd delta s"
  assume al: "aligned s"
  then have len: "length (branchLines s) = length (branches s)"
    and old: "\<And>i. i < length (branches s) \<Longrightarrow>
                mesh_color (branchLines s ! i) = color (branches s ! i)
                \<and> hd (path (branchLines s ! i)) = start (branches s ! i)"
    by (simp_all add: aligned_def)
  note U = update_network_branches[where s=s and rnd=rnd and delta=delta]
  note M = update_network_meshes[OF len, where rnd=rnd and delta=delta]
  have "mesh_color (branchLines ?s' ! i) = color (branches ?s' ! i)
        \<and> hd (path (branchLines ?s' ! i)) = start (branches ?s' ! i)"
    if i: "i < length (branches ?s')" for i
  proof (cases "i < length (branches s)")
    case True
    show ?thesis
      unfolding U(3)[OF True] M(2)[OF True] using old[OF True]
      by (simp add: step_mesh_sel step_branch_sel)
  next
    case False
    then have ge: "length (branches s) \<le> i" by simp
    from M(3)[OF ge i] obtain st d g where
      "branches ?s' ! i = new_branch st d g" "branchLines ?s' ! i = new_mesh st d g"
      by blast
    then show ?thesis by simp
  qed
  then show "aligned ?s'" using M(1) by (simp add: aligned_def)
next
  fix i
  let ?s' = "update_network rnd delta s"
  assume al: "aligned s" and i: "i < length (branches s)" and g: "isGrowing (branches s ! i)"
  from al have len: "length (branchLines s) = length (branches s)" by (simp add: aligned_def)
  show "path (branchLines ?s' ! i) = [start (branches ?s' ! i), end_pos (branches ?s' ! i)]"
    unfolding update_network_branches(3)[OF i] update_network_meshes(2)[OF len i]
    using g by (simp add: step_mesh_sel)
next
  assume "length (branches s) < MAX_BRANCHES"
  then show "branches (createBranch st d g s) = branches s @ [new_branch st d g]"
    "branchLines (createBranch st d g s) = branchLines s @ [new_mesh st d g]"
    by (simp_all add: createBranch_def)
next
  assume "MAX_BRANCHES \<le> length (branches s)"
  then show "createBranch st d g s = s" by (simp add: createBranch_def)
qed

text \<open>
  The example with its one seed branch: after an update of 0.5 s there are as many meshes
  as branches, and the mesh of the seed follows the branch from the origin to \<open>(6, 0, 0)\<close>.
\<close>

lemma example_direction: "normalize \<lparr>X = 1, Y = 0, Z = 0\<rparr> = \<lparr>X = 1, Y = 0, Z = 0\<rparr>"
  by (simp add: normalize_def vlength_def multiplyScalar_def)

theorem index_alignment_witness:
  "aligned network_example
   \<and> aligned (update_network (\<lambda>_. 1) (1 / 2) network_example)
   \<and> 0 < length (branches network_example) \<and> isGrowing (branches network_example ! 0)
   \<and> path (branchLines (update_network (\<lambda>_. 1) (1 / 2) network_example) ! 0)
       = [\<lparr>X = 0, Y = 0, Z = 0\<rparr>, \<lparr>X = 6, Y = 0, Z = 0\<rparr>]
   \<and> length (branches (new_network 0)) < MAX_BRANCHES
   \<and> MAX_BRANCHES \<le> length (branches full_example)
   \<and> createBranch \<lparr>X = 0, Y = 0, Z = 0\<rparr> \<lparr>X = 1, Y = 0, Z = 0\<rparr> 0 full_example = full_example"
proof -
  have al: "aligned network_example"
    by (simp add: aligned_def network_example_eq)
  have b: "branches (update_network (\<lambda>_. 1) (1 / 2) network_example) ! 0
             = step_branch (1 / 2) (branches network_example ! 0)"
    by (rule update_network_branches(3)) (simp add: network_example_eq)
  have e: "start (branches (update_network (\<lambda>_. 1) (1 / 2) network_example) ! 0) = \<lparr>X = 0, Y = 0, Z = 0\<rparr>"
    "end_pos (branches (update_network (\<lambda>_. 1) (1 / 2) network_example) ! 0) = \<lparr>X = 6, Y = 0, Z = 0\<rparr>"
    unfolding b
    by (simp_all add: network_example_eq step_branch_sel example_completes example_target
        example_direction vadd_def multiplyScalar_def)
  have n: "0 < length (branches network_example)"
    and g: "isGrowing (branches network_example ! 0)"
    by (simp_all add: network_example_eq)
  note T = index_alignment[of "\<lambda>_. 1" 0 network_example "\<lparr>X = 0, Y = 0, Z = 0\<rparr>"
      "\<lparr>X = 1, Y = 0, Z = 0\<rparr>" 0 undefined "1 / 2"]
  from T al have al': "aligned (update_network (\<lambda>_. 1) (1 / 2) network_example)"
    and P: "\<forall>i<length (branches network_example). isGrowing (branches network_example ! i) \<longrightarrow>
              path (branchLines (update_network (\<lambda>_. 1) (1 / 2) network_example) ! i)
                = [start (branches (update_network (\<lambda>_. 1) (1 / 2) network_example) ! i),
                   end_pos (branches (update_network (\<lambda>_. 1) (1 / 2) network_example) ! i)]"
    by blast+
  from P n g have "path (branchLines (update_network (\<lambda>_. 1) (1 / 2) network_example) ! 0)
                = [start (branches (update_network (\<lambda>_. 1) (1 / 2) network_example) ! 0),
                   end_pos (branches (update_network (\<lambda>_. 1) (1 / 2) network_example) ! 0)]"
    by blast
  then have p: "path (branchLines (update_network (\<lambda>_. 1) (1 / 2) network_example) ! 0)
       = [\<lparr>X = 0, Y = 0, Z = 0\<rparr>, \<lparr>X = 6, Y = 0, Z = 0\<rparr>]"
    by (simp add: e)
  have lt: "length (branches (new_network 0)) < MAX_BRANCHES"
    by (simp add: new_network_def MAX_BRANCHES_def)
  have ge: "MAX_BRANCHES \<le> length (branches full_example)"
    by (simp add: full_example_def MAX_BRANCHES_def)
  note T2 = index_alignment[of "\<lambda>_. 1" 0 full_example "\<lparr>X = 0, Y = 0, Z = 0\<rparr>"
      "\<lparr>X = 1, Y = 0, Z = 0\<rparr>" 0 undefined "1 / 2"]
  from T2 ge have c: "createBranch \<lparr>X = 0, Y = 0, Z = 0\<rparr> \<lparr>X = 1, Y = 0, Z = 0\<rparr> 0 full_example
                       = full_example"
    by blast
  show ?thesis
    using al al' n g p lt ge c by blast
qed


end
